theory Spec2Isabelle
  imports Complex_Main
begin

section \<open>Data model\<close>

text \<open>
  The repository holds two revisions of the React component \<open>DeliveryMap\<close>:
  \<^verbatim>\<open>src/components/map/delivery-map.tsx\<close> (definitions prefixed \<open>dm_\<close>) and
  \<^verbatim>\<open>src/unnamed/part_000\<close> (definitions prefixed \<open>p0_\<close>). Both are embedded below over
  one state type.

  React is modelled as it runs in production: the component function is called with the
  props; after each commit the effects whose dependency lists changed run in source
  order, the clean-up of such an effect before any of them; a state change from an event
  handler renders the component again with the props it had. The double invocation of
  effects by the development-only strict mode is not part of the model.

  A location prop is a JavaScript object \<^verbatim>\<open>{ lat: number; lng: number }\<close>. Its numbers are
  taken as reals (the component only passes them on and compares them), and \<open>oid\<close> is the
  identity of the object, which is what React's \<^verbatim>\<open>Object.is\<close> compares when an object
  itself stands in a dependency list.
\<close>

datatype error = TypeError

record Loc =
  oid :: nat
  lat :: real
  lng :: real

record Props =
  restaurantLocation :: "Loc option"
  deliveryLocation :: "Loc option"
  partnerLocation :: "Loc option"
  className :: string

datatype Role = Restaurant | Destination | Partner

fun coordinate :: "Role \<Rightarrow> Props \<Rightarrow> Loc option" where
  "coordinate Restaurant p = restaurantLocation p"
| "coordinate Destination p = deliveryLocation p"
| "coordinate Partner p = partnerLocation p"

text \<open>The inline markup of a marker element: diameter in pixels and background colour.\<close>

fun marker_size :: "Role \<Rightarrow> nat" where
  "marker_size Restaurant = 36"
| "marker_size Destination = 36"
| "marker_size Partner = 40"

fun marker_background :: "Role \<Rightarrow> string" where
  "marker_background Restaurant = ''hsl(25 95% 48%)''"
| "marker_background Destination = ''#10b981''"
| "marker_background Partner = ''#3b82f6''"

text \<open>MapLibre takes positions as \<^verbatim>\<open>[lng, lat]\<close>.\<close>

type_synonym LngLat = "real \<times> real"

definition lngLatOf :: "Loc \<Rightarrow> LngLat" where
  "lngLatOf l = (lng l, lat l)"

text \<open>
  A marker object: the role whose markup its element carries, its position, and the map
  instance it was added to. A marker is never taken out of \<open>markers\<close>: it stops being
  live when its map instance is removed.
\<close>

record Marker =
  role :: Role
  lngLat :: LngLat
  onMap :: nat

record MapInstance =
  center :: LngLat
  zoom :: real
  loaded :: bool
  removed :: bool
  controls :: nat
  onLoad :: bool

record EaseOptions =
  e_center :: LngLat
  e_duration :: nat
  e_easing :: "real \<Rightarrow> real"
  e_essential :: bool
  e_zoom :: "real option"

text \<open>
  The calls made on the map library, and the load event it fires, in the order they happen.
  Maps and markers are named by their index in the lists \<open>maps\<close> and \<open>markers\<close>.
\<close>

datatype Call =
    NewMap nat LngLat real
  | AddControl nat
  | OnLoad nat
  | Remove nat
  | NewMarker nat Role LngLat nat
  | SetLngLat nat LngLat nat
  | EaseTo nat EaseOptions
  | FlyTo nat LngLat real
  | FitBounds nat "LngLat \<times> LngLat" nat real
  | LoadFired nat

text \<open>
  The component instance: its refs (\<open>mapContainer\<close>, \<open>mapRef\<close> for the ref called
  \<^verbatim>\<open>map\<close>, the marker refs), its state hook \<open>mapLoaded\<close>, the props of the last committed
  render (React keeps the dependency lists computed from them), and the map library's
  objects. \<^verbatim>\<open>delivery-map.tsx\<close> has no restaurant or delivery marker ref and never writes
  those two fields; its ref \<^verbatim>\<open>partnerMarker\<close> is the field \<open>partnerMarkerRef\<close>.
  \<open>calls\<close> has the most recent call first.
\<close>

record State =
  mapContainer :: bool
  mapRef :: "nat option"
  partnerMarkerRef :: "nat option"
  restaurantMarkerRef :: "nat option"
  deliveryMarkerRef :: "nat option"
  mapLoaded :: bool
  props :: Props
  mounted :: bool
  maps :: "MapInstance list"
  markers :: "Marker list"
  calls :: "Call list"

fun markerRef :: "Role \<Rightarrow> State \<Rightarrow> nat option" where
  "markerRef Restaurant s = restaurantMarkerRef s"
| "markerRef Destination s = deliveryMarkerRef s"
| "markerRef Partner s = partnerMarkerRef s"

definition live :: "State \<Rightarrow> Marker \<Rightarrow> bool" where
  "live s m = (onMap m < length (maps s) \<and> \<not> removed (maps s ! onMap m))"

definition markersOf :: "Role \<Rightarrow> State \<Rightarrow> Marker list" where
  "markersOf r s = filter (\<lambda>m. role m = r) (markers s)"

definition liveMarkers :: "Role \<Rightarrow> State \<Rightarrow> nat" where
  "liveMarkers r s = length (filter (live s) (markersOf r s))"

section \<open>The map library as the component uses it\<close>

text \<open>
  MapLibre GL JS is an external collaborator. Each operation below records the call and
  the state the library is left in: a camera transition is represented by the camera it
  ends at, and an option that the caller leaves out keeps the camera's current value.
\<close>

definition new_Map :: "LngLat \<Rightarrow> real \<Rightarrow> State \<Rightarrow> State" where
  "new_Map c z s =
     s\<lparr>maps := maps s @ [\<lparr>center = c, zoom = z, loaded = False, removed = False,
                           controls = 0, onLoad = False\<rparr>],
       calls := NewMap (length (maps s)) c z # calls s\<rparr>"

definition upd_map :: "nat \<Rightarrow> (MapInstance \<Rightarrow> MapInstance) \<Rightarrow> State \<Rightarrow> State" where
  "upd_map i f s = (if i < length (maps s) then s\<lparr>maps := (maps s)[i := f (maps s ! i)]\<rparr> else s)"

definition addControl :: "nat \<Rightarrow> State \<Rightarrow> State" where
  "addControl i s = (upd_map i (\<lambda>m. m\<lparr>controls := Suc (controls m)\<rparr>) s)\<lparr>calls := AddControl i # calls s\<rparr>"

definition on_load :: "nat \<Rightarrow> State \<Rightarrow> State" where
  "on_load i s = (upd_map i (\<lambda>m. m\<lparr>onLoad := True\<rparr>) s)\<lparr>calls := OnLoad i # calls s\<rparr>"

definition map_remove :: "nat \<Rightarrow> State \<Rightarrow> State" where
  "map_remove i s = (upd_map i (\<lambda>m. m\<lparr>removed := True\<rparr>) s)\<lparr>calls := Remove i # calls s\<rparr>"

text \<open>\<^verbatim>\<open>new maplibregl.Marker({ element: el }).setLngLat(pos).addTo(map)\<close>; the new marker's
  index is \<open>length (markers s)\<close>.\<close>

definition new_Marker :: "Role \<Rightarrow> LngLat \<Rightarrow> nat \<Rightarrow> State \<Rightarrow> State" where
  "new_Marker r pos i s =
     s\<lparr>markers := markers s @ [\<lparr>role = r, lngLat = pos, onMap = i\<rparr>],
       calls := NewMarker (length (markers s)) r pos i # calls s\<rparr>"

definition setLngLat :: "nat \<Rightarrow> LngLat \<Rightarrow> State \<Rightarrow> State" where
  "setLngLat k pos s =
     (if k < length (markers s)
      then s\<lparr>markers := (markers s)[k := (markers s ! k)\<lparr>lngLat := pos\<rparr>],
             calls := SetLngLat k pos (onMap (markers s ! k)) # calls s\<rparr>
      else s)"

definition easeTo :: "nat \<Rightarrow> EaseOptions \<Rightarrow> State \<Rightarrow> State" where
  "easeTo i opts s =
     (upd_map i (\<lambda>m. m\<lparr>center := e_center opts,
                        zoom := (case e_zoom opts of None \<Rightarrow> zoom m | Some z \<Rightarrow> z)\<rparr>) s)
       \<lparr>calls := EaseTo i opts # calls s\<rparr>"

definition flyTo :: "nat \<Rightarrow> LngLat \<Rightarrow> real \<Rightarrow> State \<Rightarrow> State" where
  "flyTo i c speed s = (upd_map i (\<lambda>m. m\<lparr>center := c\<rparr>) s)\<lparr>calls := FlyTo i c speed # calls s\<rparr>"

text \<open>
  \<^verbatim>\<open>LngLatBounds\<close>: empty until first extended, then the south-west and north-east corners.
\<close>

type_synonym Bounds = "(LngLat \<times> LngLat) option"

definition extend :: "Bounds \<Rightarrow> LngLat \<Rightarrow> Bounds" where
  "extend b p =
     (case b of
        None \<Rightarrow> Some (p, p)
      | Some (sw, ne) \<Rightarrow>
          Some ((min (fst sw) (fst p), min (snd sw) (snd p)),
                (max (fst ne) (fst p), max (snd ne) (snd p))))"

text \<open>
  \<^verbatim>\<open>fitBounds\<close> frames a box in the viewport. The camera that does so depends on the size
  of the viewport, which the component does not know: it is the parameter \<open>cfb\<close> (the
  library's \<^verbatim>\<open>cameraForBounds\<close>), and \<^verbatim>\<open>maxZoom\<close> caps its zoom.
\<close>

type_synonym Fitter = "LngLat \<times> LngLat \<Rightarrow> LngLat \<times> real"

definition fitBounds :: "Fitter \<Rightarrow> nat \<Rightarrow> LngLat \<times> LngLat \<Rightarrow> nat \<Rightarrow> real \<Rightarrow> State \<Rightarrow> State" where
  "fitBounds cfb i b padding maxZoom s =
     (upd_map i (\<lambda>m. m\<lparr>center := fst (cfb b), zoom := min (snd (cfb b)) maxZoom\<rparr>) s)
       \<lparr>calls := FitBounds i b padding maxZoom # calls s\<rparr>"

section \<open>React: mounting, re-rendering, events\<close>

text \<open>
  What can happen to a mounted component: the caller renders it again with props, the
  live map fires its load event, the user pans or zooms the map, the component unmounts.
\<close>

datatype Event = Render Props | Load | Gesture LngLat real | Unmount

definition unmounted :: "Props \<Rightarrow> State" where
  "unmounted p =
     \<lparr>mapContainer = False, mapRef = None, partnerMarkerRef = None,
      restaurantMarkerRef = None, deliveryMarkerRef = None, mapLoaded = False,
      props = p, mounted = False, maps = [], markers = [], calls = []\<rparr>"

text \<open>The first commit attaches the \<^verbatim>\<open>div\<close> to \<open>mapContainer\<close> before any effect runs.\<close>

definition attach :: "Props \<Rightarrow> State" where
  "attach p = (unmounted p)\<lparr>mapContainer := True, mounted := True\<rparr>"

text \<open>The load event of the live map, fired at most once per map instance.\<close>

definition load_enabled :: "State \<Rightarrow> bool" where
  "load_enabled s =
     (case mapRef s of
        None \<Rightarrow> False
      | Some i \<Rightarrow> i < length (maps s) \<and> onLoad (maps s ! i) \<and> \<not> loaded (maps s ! i)
                    \<and> \<not> removed (maps s ! i))"

definition fire_load :: "State \<Rightarrow> State" where
  "fire_load s =
     (case mapRef s of
        None \<Rightarrow> s
      | Some i \<Rightarrow> (upd_map i (\<lambda>m. m\<lparr>loaded := True\<rparr>) s)\<lparr>calls := LoadFired i # calls s\<rparr>)"

definition gesture :: "LngLat \<Rightarrow> real \<Rightarrow> State \<Rightarrow> State" where
  "gesture c z s =
     (case mapRef s of
        None \<Rightarrow> s
      | Some i \<Rightarrow> upd_map i (\<lambda>m. m\<lparr>center := c, zoom := z\<rparr>) s)"

fun run :: "(State \<Rightarrow> Event \<Rightarrow> error + State) \<Rightarrow> State \<Rightarrow> Event list \<Rightarrow> error + State" where
  "run step s [] = Inr s"
| "run step s (e # es) = (case step s e of Inl x \<Rightarrow> Inl x | Inr s' \<Rightarrow> run step s' es)"

text \<open>Optional chaining \<^verbatim>\<open>x?.f\<close> and plain property access \<^verbatim>\<open>x.f\<close> on an optional prop.\<close>

definition optChain :: "(Loc \<Rightarrow> 'a) \<Rightarrow> Loc option \<Rightarrow> 'a option" where
  "optChain f x = map_option f x"

definition getProp :: "(Loc \<Rightarrow> 'a) \<Rightarrow> Loc option \<Rightarrow> error + 'a" where
  "getProp f x = (case x of None \<Rightarrow> Inl TypeError | Some l \<Rightarrow> Inr (f l))"

text \<open>The object literal \<^verbatim>\<open>{ lat: 12.9716, lng: 77.5946 }\<close>; its identity is never compared.\<close>

definition defaultCenter :: Loc where
  "defaultCenter = \<lparr>oid = 0, lat = 12.9716, lng = 77.5946\<rparr>"

section \<open>\<^verbatim>\<open>src/unnamed/part_000\<close>\<close>

definition p0_center :: "Props \<Rightarrow> Loc" where
  "p0_center p = (case restaurantLocation p of Some l \<Rightarrow> l | None \<Rightarrow> defaultCenter)"

definition p0_initialize_map :: "Props \<Rightarrow> State \<Rightarrow> State" where
  "p0_initialize_map p s =
     (if \<not> mapContainer s \<or> mapRef s \<noteq> None then s
      else let i = length (maps s)
           in (on_load i (addControl i (new_Map (lngLatOf (p0_center p)) 13 s)))
                \<lparr>mapRef := Some i\<rparr>)"

definition p0_cleanup :: "State \<Rightarrow> State" where
  "p0_cleanup s =
     (case mapRef s of None \<Rightarrow> s | Some i \<Rightarrow> map_remove i s)\<lparr>mapRef := None\<rparr>"

definition p0_place_restaurant :: "nat \<Rightarrow> Loc \<Rightarrow> State \<Rightarrow> State" where
  "p0_place_restaurant i l s =
     (case restaurantMarkerRef s of
        None \<Rightarrow> (new_Marker Restaurant (lngLatOf l) i s)
                  \<lparr>restaurantMarkerRef := Some (length (markers s))\<rparr>
      | Some k \<Rightarrow> setLngLat k (lngLatOf l) s)"

definition p0_place_delivery :: "nat \<Rightarrow> Loc \<Rightarrow> State \<Rightarrow> State" where
  "p0_place_delivery i l s =
     (case deliveryMarkerRef s of
        None \<Rightarrow> (new_Marker Destination (lngLatOf l) i s)
                  \<lparr>deliveryMarkerRef := Some (length (markers s))\<rparr>
      | Some k \<Rightarrow> setLngLat k (lngLatOf l) s)"

definition p0_update_static_markers :: "Props \<Rightarrow> State \<Rightarrow> State" where
  "p0_update_static_markers p s =
     (case mapRef s of
        None \<Rightarrow> s
      | Some i \<Rightarrow>
          if \<not> mapLoaded s then s
          else let s1 = (case restaurantLocation p of
                           None \<Rightarrow> s | Some l \<Rightarrow> p0_place_restaurant i l s)
               in (case deliveryLocation p of
                     None \<Rightarrow> s1 | Some l \<Rightarrow> p0_place_delivery i l s1))"

definition p0_place_partner :: "nat \<Rightarrow> Loc \<Rightarrow> State \<Rightarrow> State" where
  "p0_place_partner i l s =
     (case partnerMarkerRef s of
        Some k \<Rightarrow> setLngLat k (lngLatOf l) s
      | None \<Rightarrow> (new_Marker Partner (lngLatOf l) i s)
                  \<lparr>partnerMarkerRef := Some (length (markers s))\<rparr>)"

definition p0_ease_options :: "Loc \<Rightarrow> EaseOptions" where
  "p0_ease_options l =
     \<lparr>e_center = lngLatOf l, e_duration = 1000, e_easing = (\<lambda>t. t), e_essential = True,
      e_zoom = None\<rparr>"

definition p0_update_partner_marker :: "Props \<Rightarrow> State \<Rightarrow> State" where
  "p0_update_partner_marker p s =
     (case mapRef s of
        None \<Rightarrow> s
      | Some i \<Rightarrow>
          if \<not> mapLoaded s then s
          else (case partnerLocation p of
                  None \<Rightarrow> s
                | Some l \<Rightarrow> easeTo i (p0_ease_options l) (p0_place_partner i l s)))"

text \<open>
  The dependency lists, compared entry by entry with \<^verbatim>\<open>Object.is\<close>: objects by identity,
  numbers and \<^verbatim>\<open>undefined\<close> by value. The initialisation effect's list is empty.
\<close>

definition p0_static_deps :: "bool \<Rightarrow> Props \<Rightarrow> bool \<times> nat option \<times> nat option" where
  "p0_static_deps b p =
     (b, optChain oid (restaurantLocation p), optChain oid (deliveryLocation p))"

definition p0_partner_deps :: "bool \<Rightarrow> Props \<Rightarrow> bool \<times> real option \<times> real option" where
  "p0_partner_deps b p =
     (b, optChain lat (partnerLocation p), optChain lng (partnerLocation p))"

text \<open>A render with props \<open>p'\<close> and state \<open>b'\<close>, followed by the effects whose lists changed.\<close>

definition p0_commit :: "Props \<Rightarrow> bool \<Rightarrow> State \<Rightarrow> State" where
  "p0_commit p' b' s =
     (let s0 = s\<lparr>props := p', mapLoaded := b'\<rparr>;
          s1 = (if p0_static_deps b' p' \<noteq> p0_static_deps (mapLoaded s) (props s)
                then p0_update_static_markers p' s0 else s0)
      in if p0_partner_deps b' p' \<noteq> p0_partner_deps (mapLoaded s) (props s)
         then p0_update_partner_marker p' s1 else s1)"

definition p0_mount :: "Props \<Rightarrow> error + State" where
  "p0_mount p =
     Inr (p0_update_partner_marker p (p0_update_static_markers p
            (p0_initialize_map p (attach p))))"

definition p0_step :: "State \<Rightarrow> Event \<Rightarrow> error + State" where
  "p0_step s e =
     (if \<not> mounted s then Inr s
      else case e of
             Render p' \<Rightarrow> Inr (p0_commit p' (mapLoaded s) s)
           | Load \<Rightarrow> Inr (if load_enabled s then p0_commit (props s) True (fire_load s) else s)
           | Gesture c z \<Rightarrow> Inr (gesture c z s)
           | Unmount \<Rightarrow> Inr ((p0_cleanup s)\<lparr>mounted := False\<rparr>))"

definition p0_DeliveryMap :: "Props \<Rightarrow> Event list \<Rightarrow> error + State" where
  "p0_DeliveryMap p es = (case p0_mount p of Inl x \<Rightarrow> Inl x | Inr s \<Rightarrow> run p0_step s es)"

section \<open>\<^verbatim>\<open>src/components/map/delivery-map.tsx\<close>\<close>

definition dm_center :: "Props \<Rightarrow> Loc" where
  "dm_center p =
     (case partnerLocation p of
        Some l \<Rightarrow> l
      | None \<Rightarrow> (case restaurantLocation p of Some l \<Rightarrow> l | None \<Rightarrow> defaultCenter))"

definition dm_initialize_map :: "Props \<Rightarrow> State \<Rightarrow> State" where
  "dm_initialize_map p s =
     (if \<not> mapContainer s then s
      else let i = length (maps s)
           in (on_load i (addControl i (new_Map (lngLatOf (dm_center p)) 14 s)))
                \<lparr>mapRef := Some i\<rparr>)"

definition dm_cleanup :: "State \<Rightarrow> State" where
  "dm_cleanup s =
     (case mapRef s of None \<Rightarrow> s | Some i \<Rightarrow> (map_remove i s)\<lparr>mapRef := None\<rparr>)"

definition dm_update_markers :: "Props \<Rightarrow> State \<Rightarrow> State" where
  "dm_update_markers p s =
     (case mapRef s of
        None \<Rightarrow> s
      | Some i \<Rightarrow>
          if \<not> mapLoaded s then s
          else let s1 = (case restaurantLocation p of
                           None \<Rightarrow> s | Some l \<Rightarrow> new_Marker Restaurant (lngLatOf l) i s)
               in (case deliveryLocation p of
                     None \<Rightarrow> s1 | Some l \<Rightarrow> new_Marker Destination (lngLatOf l) i s1))"

definition dm_place_partner :: "nat \<Rightarrow> Loc \<Rightarrow> State \<Rightarrow> State" where
  "dm_place_partner i l s =
     (case partnerMarkerRef s of
        Some k \<Rightarrow> setLngLat k (lngLatOf l) s
      | None \<Rightarrow> (new_Marker Partner (lngLatOf l) i s)
                  \<lparr>partnerMarkerRef := Some (length (markers s))\<rparr>)"

definition dm_update_partner_marker :: "Props \<Rightarrow> State \<Rightarrow> State" where
  "dm_update_partner_marker p s =
     (case mapRef s of
        None \<Rightarrow> s
      | Some i \<Rightarrow>
          if \<not> mapLoaded s then s
          else (case partnerLocation p of
                  None \<Rightarrow> s
                | Some l \<Rightarrow> flyTo i (lngLatOf l) 0.5 (dm_place_partner i l s)))"

text \<open>The bounds and the count of the coordinates that are present.\<close>

definition dm_bounds :: "Props \<Rightarrow> Bounds \<times> nat" where
  "dm_bounds p =
     (let bc0 = (None, 0);
          bc1 = (case restaurantLocation p of
                   None \<Rightarrow> bc0 | Some l \<Rightarrow> (extend (fst bc0) (lngLatOf l), Suc (snd bc0)));
          bc2 = (case deliveryLocation p of
                   None \<Rightarrow> bc1 | Some l \<Rightarrow> (extend (fst bc1) (lngLatOf l), Suc (snd bc1)))
      in (case partnerLocation p of
            None \<Rightarrow> bc2 | Some l \<Rightarrow> (extend (fst bc2) (lngLatOf l), Suc (snd bc2))))"

definition dm_fit_bounds :: "Fitter \<Rightarrow> Props \<Rightarrow> State \<Rightarrow> State" where
  "dm_fit_bounds cfb p s =
     (case mapRef s of
        None \<Rightarrow> s
      | Some i \<Rightarrow>
          if \<not> mapLoaded s then s
          else (case fst (dm_bounds p) of
                  None \<Rightarrow> s
                | Some b \<Rightarrow> if snd (dm_bounds p) > 0 then fitBounds cfb i b 80 15 s else s))"

text \<open>
  The dependency lists, all of numbers. The list of the partner effect reads
  \<^verbatim>\<open>partnerLocation.lat\<close> and \<^verbatim>\<open>partnerLocation.lng\<close> without optional chaining, while the
  component function runs: with the prop absent the render throws.
\<close>

definition dm_init_deps :: "Props \<Rightarrow> real \<times> real" where
  "dm_init_deps p = (lat (dm_center p), lng (dm_center p))"

definition dm_marker_deps ::
  "bool \<Rightarrow> Props \<Rightarrow> bool \<times> real option \<times> real option \<times> real option \<times> real option" where
  "dm_marker_deps b p =
     (b, optChain lat (restaurantLocation p), optChain lng (restaurantLocation p),
         optChain lat (deliveryLocation p), optChain lng (deliveryLocation p))"

definition dm_partner_deps :: "bool \<Rightarrow> Props \<Rightarrow> error + (bool \<times> real \<times> real)" where
  "dm_partner_deps b p =
     (case getProp lat (partnerLocation p) of
        Inl x \<Rightarrow> Inl x
      | Inr y \<Rightarrow> (case getProp lng (partnerLocation p) of
                     Inl x \<Rightarrow> Inl x
                   | Inr x \<Rightarrow> Inr (b, y, x)))"

text \<open>
  A re-render: the component function runs (and may throw); then the clean-up of the
  initialisation effect if its list changed; then every effect whose list changed, in
  source order.
\<close>

definition dm_commit :: "Fitter \<Rightarrow> Props \<Rightarrow> bool \<Rightarrow> State \<Rightarrow> error + State" where
  "dm_commit cfb p' b' s =
     (case dm_partner_deps b' p' of
        Inl x \<Rightarrow> Inl x
      | Inr pd \<Rightarrow>
          let s0 = s\<lparr>props := p', mapLoaded := b'\<rparr>;
              s1 = (if dm_init_deps p' \<noteq> dm_init_deps (props s)
                    then dm_initialize_map p' (dm_cleanup s0) else s0);
              s2 = (if dm_marker_deps b' p' \<noteq> dm_marker_deps (mapLoaded s) (props s)
                    then dm_update_markers p' s1 else s1);
              s3 = (if Inr pd \<noteq> dm_partner_deps (mapLoaded s) (props s)
                    then dm_update_partner_marker p' s2 else s2)
          in Inr (if dm_marker_deps b' p' \<noteq> dm_marker_deps (mapLoaded s) (props s)
                  then dm_fit_bounds cfb p' s3 else s3))"

definition dm_mount :: "Fitter \<Rightarrow> Props \<Rightarrow> error + State" where
  "dm_mount cfb p =
     (case dm_partner_deps False p of
        Inl x \<Rightarrow> Inl x
      | Inr pd \<Rightarrow>
          Inr (dm_fit_bounds cfb p (dm_update_partner_marker p (dm_update_markers p
                 (dm_initialize_map p (attach p))))))"

definition dm_step :: "Fitter \<Rightarrow> State \<Rightarrow> Event \<Rightarrow> error + State" where
  "dm_step cfb s e =
     (if \<not> mounted s then Inr s
      else case e of
             Render p' \<Rightarrow> dm_commit cfb p' (mapLoaded s) s
           | Load \<Rightarrow> (if load_enabled s then dm_commit cfb (props s) True (fire_load s)
                      else Inr s)
           | Gesture c z \<Rightarrow> Inr (gesture c z s)
           | Unmount \<Rightarrow> Inr ((dm_cleanup s)\<lparr>mounted := False\<rparr>))"

definition dm_DeliveryMap :: "Fitter \<Rightarrow> Props \<Rightarrow> Event list \<Rightarrow> error + State" where
  "dm_DeliveryMap cfb p es =
     (case dm_mount cfb p of Inl x \<Rightarrow> Inl x | Inr s \<Rightarrow> run (dm_step cfb) s es)"

section \<open>Readiness gating of the recorded calls\<close>

text \<open>The map instance that a marker or camera operation works on.\<close>

fun target :: "Call \<Rightarrow> nat option" where
  "target (NewMarker k r pos i) = Some i"
| "target (SetLngLat k pos i) = Some i"
| "target (EaseTo i opts) = Some i"
| "target (FlyTo i c speed) = Some i"
| "target (FitBounds i b padding maxZoom) = Some i"
| "target c = None"

text \<open>Every marker or camera operation comes after the load event of its map instance.\<close>

fun gated :: "Call list \<Rightarrow> bool" where
  "gated [] = True"
| "gated (c # cs) =
     ((case target c of None \<Rightarrow> True | Some i \<Rightarrow> LoadFired i \<in> set cs) \<and> gated cs)"

section \<open>Invariants of \<^verbatim>\<open>part_000\<close>\<close>

text \<open>
  The marker ref of a role is empty exactly when no marker of that role was constructed,
  and otherwise names the only one.
\<close>

definition slot_ok :: "Role \<Rightarrow> State \<Rightarrow> bool" where
  "slot_ok r s =
     (case markerRef r s of
        None \<Rightarrow> markersOf r s = []
      | Some k \<Rightarrow> k < length (markers s) \<and> markersOf r s = [markers s ! k])"

definition refs_ok :: "State \<Rightarrow> bool" where
  "refs_ok s = (slot_ok Restaurant s \<and> slot_ok Destination s \<and> slot_ok Partner s)"

text \<open>There is one map instance, the first; it is the live one until the component unmounts.\<close>

definition one_map :: "State \<Rightarrow> bool" where
  "one_map s =
     (length (maps s) = 1 \<and> onLoad (maps s ! 0) \<and>
      (if mounted s then mapRef s = Some 0 \<and> \<not> removed (maps s ! 0)
       else mapRef s = None \<and> removed (maps s ! 0)) \<and>
      (\<forall>m \<in> set (markers s). onMap m = 0))"

text \<open>The state hook follows the load event of that instance.\<close>

definition ready_ok :: "State \<Rightarrow> bool" where
  "ready_ok s =
     ((mapLoaded s \<longleftrightarrow> loaded (maps s ! 0)) \<and>
      (loaded (maps s ! 0) \<longleftrightarrow> LoadFired 0 \<in> set (calls s)) \<and> gated (calls s))"

definition p0_inv :: "State \<Rightarrow> bool" where
  "p0_inv s = (refs_ok s \<and> one_map s \<and> ready_ok s)"

text \<open>What a marker operation on map \<open>i\<close> adds to the markers and to the calls.\<close>

definition marker_op :: "nat \<Rightarrow> State \<Rightarrow> State \<Rightarrow> bool" where
  "marker_op i s s' =
     ((\<forall>m \<in> set (markers s). onMap m = i) \<longrightarrow>
        (\<forall>m \<in> set (markers s'). onMap m = i) \<and>
        (\<exists>c. calls s' = c # calls s \<and> target c = Some i))"

text \<open>
  The markers of role \<open>r\<close> once a coordinate \<open>l\<close> has been applied to it: a new marker
  if there was none, the same marker moved otherwise.
\<close>

definition after :: "Role \<Rightarrow> nat \<Rightarrow> Loc \<Rightarrow> State \<Rightarrow> Marker list" where
  "after r i l s =
     [case markersOf r s of
        [] \<Rightarrow> \<lparr>role = r, lngLat = lngLatOf l, onMap = i\<rparr>
      | m # ms \<Rightarrow> m\<lparr>lngLat := lngLatOf l\<rparr>]"

text \<open>
  Whether the effect that keeps the marker of role \<open>r\<close> runs in a render with props \<open>p'\<close>
  and state \<open>b'\<close>: its dependency list differs from the one of the last render.
\<close>

definition p0_runs :: "Role \<Rightarrow> Props \<Rightarrow> bool \<Rightarrow> State \<Rightarrow> bool" where
  "p0_runs r p' b' s =
     (if r = Partner then p0_partner_deps b' p' \<noteq> p0_partner_deps (mapLoaded s) (props s)
      else p0_static_deps b' p' \<noteq> p0_static_deps (mapLoaded s) (props s))"

section \<open>Observations and example inputs\<close>

definition outcome :: "(State \<Rightarrow> 'a) \<Rightarrow> error + State \<Rightarrow> error + 'a" where
  "outcome f x = (case x of Inl e \<Rightarrow> Inl e | Inr s \<Rightarrow> Inr (f s))"

text \<open>Whether an event brings a coordinate for the role.\<close>

fun supplies :: "Role \<Rightarrow> Event \<Rightarrow> bool" where
  "supplies r (Render p) = (coordinate r p \<noteq> None)"
| "supplies r e = False"

definition ex_R1 :: Loc where "ex_R1 = \<lparr>oid = 1, lat = 12.97, lng = 77.59\<rparr>"
definition ex_R2 :: Loc where "ex_R2 = \<lparr>oid = 2, lat = 12.98, lng = 77.60\<rparr>"
definition ex_D1 :: Loc where "ex_D1 = \<lparr>oid = 3, lat = 12.95, lng = 77.58\<rparr>"
definition ex_D2 :: Loc where "ex_D2 = \<lparr>oid = 4, lat = 12.96, lng = 77.57\<rparr>"
definition ex_P1 :: Loc where "ex_P1 = \<lparr>oid = 5, lat = 12.90, lng = 77.60\<rparr>"
definition ex_P2 :: Loc where "ex_P2 = \<lparr>oid = 6, lat = 12.91, lng = 77.61\<rparr>"

definition ex_props :: "Loc option \<Rightarrow> Loc option \<Rightarrow> Loc option \<Rightarrow> Props" where
  "ex_props a b c =
     \<lparr>restaurantLocation = a, deliveryLocation = b, partnerLocation = c, className = ''''\<rparr>"

text \<open>A viewport in which every box is framed from its south-west corner at zoom 16.\<close>

definition ex_fit :: Fitter where
  "ex_fit b = (fst b, 16)"

section \<open>Lemmas\<close>

lemmas lib_defs = new_Map_def upd_map_def addControl_def on_load_def map_remove_def new_Marker_def
  setLngLat_def easeTo_def flyTo_def fitBounds_def extend_def lngLatOf_def attach_def unmounted_def
  load_enabled_def fire_load_def gesture_def optChain_def getProp_def defaultCenter_def Let_def
lemmas dm_defs = dm_center_def dm_initialize_map_def dm_cleanup_def dm_update_markers_def
  dm_place_partner_def dm_update_partner_marker_def dm_bounds_def dm_fit_bounds_def dm_init_deps_def
  dm_marker_deps_def dm_partner_deps_def dm_commit_def dm_mount_def dm_step_def dm_DeliveryMap_def
lemmas p0_defs = p0_center_def p0_initialize_map_def p0_cleanup_def p0_place_restaurant_def
  p0_place_delivery_def p0_update_static_markers_def p0_place_partner_def p0_ease_options_def
  p0_update_partner_marker_def p0_static_deps_def p0_partner_deps_def p0_commit_def p0_mount_def
  p0_step_def p0_DeliveryMap_def
lemmas ex_defs = ex_R1_def ex_R2_def ex_D1_def ex_D2_def ex_P1_def ex_P2_def ex_props_def
  ex_fit_def outcome_def
lemmas obs_defs = liveMarkers_def markersOf_def live_def

lemma filter_update_other:
  "k < length xs \<Longrightarrow> \<not> P (xs ! k) \<Longrightarrow> \<not> P y \<Longrightarrow> filter P (xs[k := y]) = filter P xs"
proof (induction xs arbitrary: k)
  case Nil
  then show ?case by simp
next
  case (Cons x xs)
  then show ?case by (cases k) auto
qed

lemma filter_singleton_P: "filter P xs = [x] \<Longrightarrow> P x"
proof -
  assume "filter P xs = [x]"
  then have "x \<in> set (filter P xs)" by simp
  then show "P x" by simp
qed

lemma filter_singleton_nth:
  "k < length xs \<Longrightarrow> filter P xs = [xs ! k] \<Longrightarrow> P y \<Longrightarrow> filter P (xs[k := y]) = [y]"
proof (induction xs arbitrary: k)
  case Nil
  then show ?case by simp
next
  case (Cons x xs)
  show ?case
  proof (cases k)
    case 0
    with Cons.prems show ?thesis by (auto split: if_splits dest: filter_singleton_P)
  next
    case (Suc j)
    show ?thesis
    proof (cases "P x")
      case True
      with Cons.prems Suc have "filter P xs = []" "x = xs ! j" by auto
      moreover from Cons.prems Suc have "xs ! j \<in> set xs" by simp
      ultimately have False using True by (metis filter_empty_conv)
      then show ?thesis ..
    next
      case False
      with Cons.prems Suc Cons.IH[of j] show ?thesis by simp
    qed
  qed
qed

lemma slot_okD:
  "slot_ok r s \<Longrightarrow> markerRef r s = Some k \<Longrightarrow>
     k < length (markers s) \<and> markersOf r s = [markers s ! k] \<and> role (markers s ! k) = r"
  by (auto simp: slot_ok_def markersOf_def dest: filter_singleton_P)

lemma refs_ok_all: "refs_ok s \<Longrightarrow> slot_ok r s"
  by (cases r) (simp_all add: refs_ok_def)

lemma nth_append_left [simp]: "k < length xs \<Longrightarrow> (xs @ ys) ! k = xs ! k"
  by (simp add: nth_append)

lemma markerRef_setLngLat [simp]: "markerRef r (setLngLat k pos s) = markerRef r s"
  by (cases r) (simp_all add: setLngLat_def)

lemma setLngLat_refs [simp]:
  "restaurantMarkerRef (setLngLat k pos s) = restaurantMarkerRef s"
  "deliveryMarkerRef (setLngLat k pos s) = deliveryMarkerRef s"
  "partnerMarkerRef (setLngLat k pos s) = partnerMarkerRef s"
  by (simp_all add: setLngLat_def)

lemma slot_ok_setLngLat:
  assumes r: "slot_ok r s" and r': "slot_ok r' s" and k: "markerRef r' s = Some k"
  shows "slot_ok r (setLngLat k pos s)"
proof -
  from slot_okD[OF r' k] have kl: "k < length (markers s)"
    and kr: "role (markers s ! k) = r'" and ks: "markersOf r' s = [markers s ! k]" by auto
  show ?thesis
  proof (cases "r = r'")
    case True
    from kl have m: "markers (setLngLat k pos s) = (markers s)[k := (markers s ! k)\<lparr>lngLat := pos\<rparr>]"
      by (simp add: setLngLat_def)
    from kl ks kr have "filter (\<lambda>m. role m = r') ((markers s)[k := (markers s ! k)\<lparr>lngLat := pos\<rparr>])
        = [(markers s ! k)\<lparr>lngLat := pos\<rparr>]"
      by (intro filter_singleton_nth) (simp_all add: markersOf_def)
    with True kl k m show ?thesis
      by (simp add: slot_ok_def markersOf_def)
  next
    case False
    with kl kr have same: "markersOf r (setLngLat k pos s) = markersOf r s"
      by (simp add: markersOf_def setLngLat_def filter_update_other)
    show ?thesis
    proof (cases "markerRef r s")
      case None
      with r same show ?thesis by (simp add: slot_ok_def)
    next
      case (Some j)
      from slot_okD[OF r Some] False kr have "j \<noteq> k" by auto
      moreover from kl have "markers (setLngLat k pos s) = (markers s)[k := (markers s ! k)\<lparr>lngLat := pos\<rparr>]"
        by (simp add: setLngLat_def)
      ultimately show ?thesis using r same Some kl by (simp add: slot_ok_def)
    qed
  qed
qed

lemma markersOf_new_Marker:
  "markersOf r (new_Marker r' pos i s) =
     (if r = r' then markersOf r s @ [\<lparr>role = r', lngLat = pos, onMap = i\<rparr>] else markersOf r s)"
  by (simp add: markersOf_def new_Marker_def)

lemma refs_ok_setLngLat: "refs_ok s \<Longrightarrow> markerRef r' s = Some k \<Longrightarrow> refs_ok (setLngLat k pos s)"
  unfolding refs_ok_def
  by (meson refs_ok_all refs_ok_def slot_ok_setLngLat)

lemma place_restaurant_refs:
  assumes "refs_ok s"
  shows "refs_ok (p0_place_restaurant i l s)"
proof (cases "restaurantMarkerRef s")
  case None
  with assms show ?thesis
    by (auto simp: refs_ok_def slot_ok_def markersOf_def p0_place_restaurant_def new_Marker_def
        split: option.splits)
next
  case (Some k)
  then have "markerRef Restaurant s = Some k" by simp
  from refs_ok_setLngLat[OF assms this] Some show ?thesis
    by (simp add: p0_place_restaurant_def)
qed

lemma place_delivery_refs:
  assumes "refs_ok s"
  shows "refs_ok (p0_place_delivery i l s)"
proof (cases "deliveryMarkerRef s")
  case None
  with assms show ?thesis
    by (auto simp: refs_ok_def slot_ok_def markersOf_def p0_place_delivery_def new_Marker_def
        split: option.splits)
next
  case (Some k)
  then have "markerRef Destination s = Some k" by simp
  from refs_ok_setLngLat[OF assms this] Some show ?thesis
    by (simp add: p0_place_delivery_def)
qed

lemma place_partner_refs:
  assumes "refs_ok s"
  shows "refs_ok (p0_place_partner i l s)"
proof (cases "partnerMarkerRef s")
  case None
  with assms show ?thesis
    by (auto simp: refs_ok_def slot_ok_def markersOf_def p0_place_partner_def new_Marker_def
        split: option.splits)
next
  case (Some k)
  then have "markerRef Partner s = Some k" by simp
  from refs_ok_setLngLat[OF assms this] Some show ?thesis
    by (simp add: p0_place_partner_def)
qed

lemma setLngLat_frame [simp]:
  "maps (setLngLat k pos s) = maps s" "mapRef (setLngLat k pos s) = mapRef s"
  "mapLoaded (setLngLat k pos s) = mapLoaded s" "mounted (setLngLat k pos s) = mounted s"
  "props (setLngLat k pos s) = props s" "mapContainer (setLngLat k pos s) = mapContainer s"
  by (simp_all add: setLngLat_def)

lemma new_Marker_frame [simp]:
  "maps (new_Marker r pos i s) = maps s" "mapRef (new_Marker r pos i s) = mapRef s"
  "mapLoaded (new_Marker r pos i s) = mapLoaded s" "mounted (new_Marker r pos i s) = mounted s"
  "props (new_Marker r pos i s) = props s" "mapContainer (new_Marker r pos i s) = mapContainer s"
  by (simp_all add: new_Marker_def)

lemma place_frame [simp]:
  "maps (p0_place_restaurant i l s) = maps s" "mapRef (p0_place_restaurant i l s) = mapRef s"
  "mapLoaded (p0_place_restaurant i l s) = mapLoaded s"
  "mounted (p0_place_restaurant i l s) = mounted s"
  "props (p0_place_restaurant i l s) = props s"
  "mapContainer (p0_place_restaurant i l s) = mapContainer s"
  "maps (p0_place_delivery i l s) = maps s" "mapRef (p0_place_delivery i l s) = mapRef s"
  "mapLoaded (p0_place_delivery i l s) = mapLoaded s"
  "mounted (p0_place_delivery i l s) = mounted s"
  "props (p0_place_delivery i l s) = props s"
  "mapContainer (p0_place_delivery i l s) = mapContainer s"
  "maps (p0_place_partner i l s) = maps s" "mapRef (p0_place_partner i l s) = mapRef s"
  "mapLoaded (p0_place_partner i l s) = mapLoaded s"
  "mounted (p0_place_partner i l s) = mounted s"
  "props (p0_place_partner i l s) = props s"
  "mapContainer (p0_place_partner i l s) = mapContainer s"
  by (simp_all add: p0_place_restaurant_def p0_place_delivery_def p0_place_partner_def
      split: option.splits)

lemma setLngLat_marker_op: "k < length (markers s) \<Longrightarrow> marker_op i s (setLngLat k pos s)"
  by (auto simp: marker_op_def setLngLat_def dest!: set_update_subset_insert[THEN subsetD])

lemma new_Marker_marker_op: "marker_op i s (new_Marker r pos i s)"
  by (auto simp: marker_op_def new_Marker_def)

lemma place_restaurant_op: "refs_ok s \<Longrightarrow> marker_op i s (p0_place_restaurant i l s)"
  using slot_okD[OF refs_ok_all, of s Restaurant]
  by (auto simp: p0_place_restaurant_def marker_op_def new_Marker_def
      dest!: setLngLat_marker_op[of _ s i "lngLatOf l"] split: option.splits)

lemma place_delivery_op: "refs_ok s \<Longrightarrow> marker_op i s (p0_place_delivery i l s)"
  using slot_okD[OF refs_ok_all, of s Destination]
  by (auto simp: p0_place_delivery_def marker_op_def new_Marker_def
      dest!: setLngLat_marker_op[of _ s i "lngLatOf l"] split: option.splits)

lemma place_partner_op: "refs_ok s \<Longrightarrow> marker_op i s (p0_place_partner i l s)"
  using slot_okD[OF refs_ok_all, of s Partner]
  by (auto simp: p0_place_partner_def marker_op_def new_Marker_def
      dest!: setLngLat_marker_op[of _ s i "lngLatOf l"] split: option.splits)

lemma target_not_load: "target c = Some i \<Longrightarrow> c \<noteq> LoadFired j"
  by auto

lemma inv_marker_op:
  assumes inv: "p0_inv s" and l: "mapLoaded s" and op: "marker_op 0 s s'" and r: "refs_ok s'"
    and fr: "maps s' = maps s" "mapRef s' = mapRef s" "mapLoaded s' = mapLoaded s"
      "mounted s' = mounted s"
  shows "p0_inv s'"
proof -
  from inv have om: "one_map s" and rd: "ready_ok s" by (simp_all add: p0_inv_def)
  from om have "\<forall>m \<in> set (markers s). onMap m = 0" by (simp add: one_map_def)
  with op obtain c where m': "\<forall>m \<in> set (markers s'). onMap m = 0"
    and c: "calls s' = c # calls s" "target c = Some 0"
    by (auto simp: marker_op_def)
  from rd l have lf: "LoadFired 0 \<in> set (calls s)" by (auto simp: ready_ok_def)
  from om m' fr have "one_map s'" by (simp add: one_map_def)
  moreover from rd c lf fr target_not_load[OF c(2), of 0] have "ready_ok s'"
    by (auto simp: ready_ok_def)
  ultimately show ?thesis using r by (simp add: p0_inv_def)
qed

lemma place_restaurant_inv:
  "p0_inv s \<Longrightarrow> mapLoaded s \<Longrightarrow> p0_inv (p0_place_restaurant 0 l s)"
  by (rule inv_marker_op[of s])
     (simp_all add: place_restaurant_op place_restaurant_refs p0_inv_def)

lemma place_delivery_inv:
  "p0_inv s \<Longrightarrow> mapLoaded s \<Longrightarrow> p0_inv (p0_place_delivery 0 l s)"
  by (rule inv_marker_op[of s])
     (simp_all add: place_delivery_op place_delivery_refs p0_inv_def)

lemma place_partner_inv:
  "p0_inv s \<Longrightarrow> mapLoaded s \<Longrightarrow> p0_inv (p0_place_partner 0 l s)"
  by (rule inv_marker_op[of s])
     (simp_all add: place_partner_op place_partner_refs p0_inv_def)

lemma inv_mapRef: "p0_inv s \<Longrightarrow> mapRef s = (if mounted s then Some 0 else None)"
  by (simp add: p0_inv_def one_map_def)

lemma update_static_markers_frame [simp]:
  "maps (p0_update_static_markers p s) = maps s"
  "mapRef (p0_update_static_markers p s) = mapRef s"
  "mapLoaded (p0_update_static_markers p s) = mapLoaded s"
  "mounted (p0_update_static_markers p s) = mounted s"
  "props (p0_update_static_markers p s) = props s"
  by (simp_all add: p0_update_static_markers_def Let_def split: option.splits)

lemma update_static_markers_inv:
  assumes "p0_inv s"
  shows "p0_inv (p0_update_static_markers p s)"
proof (cases "mounted s \<and> mapLoaded s")
  case False
  with assms inv_mapRef[OF assms] show ?thesis
    by (auto simp: p0_update_static_markers_def)
next
  case True
  define s1 where "s1 = (case restaurantLocation p of
                           None \<Rightarrow> s | Some l \<Rightarrow> p0_place_restaurant 0 l s)"
  from True assms have 1: "p0_inv s1" "mapLoaded s1"
    by (auto simp: s1_def place_restaurant_inv split: option.splits)
  then have "p0_inv (case deliveryLocation p of
                       None \<Rightarrow> s1 | Some l \<Rightarrow> p0_place_delivery 0 l s1)"
    by (auto simp: place_delivery_inv split: option.splits)
  with True inv_mapRef[OF assms] show ?thesis
    unfolding p0_update_static_markers_def s1_def Let_def by simp
qed

lemma refs_ok_cong:
  "markers s' = markers s \<Longrightarrow> restaurantMarkerRef s' = restaurantMarkerRef s \<Longrightarrow>
   deliveryMarkerRef s' = deliveryMarkerRef s \<Longrightarrow> partnerMarkerRef s' = partnerMarkerRef s \<Longrightarrow>
   refs_ok s' = refs_ok s"
  by (simp add: refs_ok_def slot_ok_def markersOf_def cong: option.case_cong)

lemma easeTo_inv:
  assumes "p0_inv s" "mapLoaded s"
  shows "p0_inv (easeTo 0 opts s)"
proof -
  have "refs_ok (easeTo 0 opts s) = refs_ok s"
    by (rule refs_ok_cong) (simp_all add: easeTo_def upd_map_def)
  with assms have "refs_ok (easeTo 0 opts s)" by (simp add: p0_inv_def)
  moreover from assms have "one_map (easeTo 0 opts s)"
    by (auto simp: p0_inv_def one_map_def easeTo_def upd_map_def)
  moreover from assms have "ready_ok (easeTo 0 opts s)"
    by (auto simp: p0_inv_def ready_ok_def one_map_def easeTo_def upd_map_def)
  ultimately show ?thesis by (simp add: p0_inv_def)
qed

lemma update_partner_marker_inv:
  assumes "p0_inv s"
  shows "p0_inv (p0_update_partner_marker p s)"
proof (cases "mounted s \<and> mapLoaded s")
  case False
  with assms inv_mapRef[OF assms] show ?thesis
    by (auto simp: p0_update_partner_marker_def)
next
  case True
  with assms inv_mapRef[OF assms] show ?thesis
    by (auto simp: p0_update_partner_marker_def place_partner_inv easeTo_inv
        split: option.splits)
qed

lemma commit_inv:
  "p0_inv (s\<lparr>props := p', mapLoaded := b'\<rparr>) \<Longrightarrow> p0_inv (p0_commit p' b' s)"
  by (simp add: p0_commit_def Let_def update_static_markers_inv update_partner_marker_inv)

lemma inv_props: "p0_inv s \<Longrightarrow> p0_inv (s\<lparr>props := p', mapLoaded := mapLoaded s\<rparr>)"
proof -
  assume a: "p0_inv s"
  have "refs_ok (s\<lparr>props := p', mapLoaded := mapLoaded s\<rparr>) = refs_ok s"
    by (rule refs_ok_cong) simp_all
  with a show ?thesis by (simp add: p0_inv_def one_map_def ready_ok_def)
qed

lemma fire_load_inv:
  assumes a: "p0_inv s" and e: "load_enabled s"
  shows "p0_inv ((fire_load s)\<lparr>props := props s, mapLoaded := True\<rparr>)"
proof -
  let ?s = "(fire_load s)\<lparr>props := props s, mapLoaded := True\<rparr>"
  from e inv_mapRef[OF a] have m: "mapRef s = Some 0" "maps s \<noteq> []"
    by (auto simp: load_enabled_def split: option.splits if_splits)
  have "refs_ok ?s = refs_ok s"
    by (rule refs_ok_cong) (simp_all add: fire_load_def upd_map_def split: option.splits)
  moreover from a m have "one_map ?s"
    by (auto simp: p0_inv_def one_map_def fire_load_def upd_map_def split: if_splits)
  moreover from a m have "ready_ok ?s"
    by (auto simp: p0_inv_def ready_ok_def fire_load_def upd_map_def)
  ultimately show ?thesis using a by (simp add: p0_inv_def)
qed

lemma gesture_inv:
  assumes a: "p0_inv s"
  shows "p0_inv (gesture c z s)"
proof -
  have "refs_ok (gesture c z s) = refs_ok s"
    by (rule refs_ok_cong) (simp_all add: gesture_def upd_map_def split: option.splits)
  moreover from a have "one_map (gesture c z s)"
    by (auto simp: p0_inv_def one_map_def gesture_def upd_map_def split: option.splits if_splits)
  moreover from a have "ready_ok (gesture c z s)"
    by (auto simp: p0_inv_def one_map_def ready_ok_def gesture_def upd_map_def
        split: option.splits if_splits)
  ultimately show ?thesis using a by (simp add: p0_inv_def)
qed

lemma unmount_inv:
  assumes a: "p0_inv s" and m: "mounted s"
  shows "p0_inv ((p0_cleanup s)\<lparr>mounted := False\<rparr>)"
proof -
  let ?s = "(p0_cleanup s)\<lparr>mounted := False\<rparr>"
  have "refs_ok ?s = refs_ok s"
    by (rule refs_ok_cong)
       (simp_all add: p0_cleanup_def map_remove_def upd_map_def split: option.splits)
  moreover from a m have "one_map ?s"
    by (auto simp: p0_inv_def one_map_def p0_cleanup_def map_remove_def upd_map_def
        split: option.splits)
  moreover from a m have "ready_ok ?s"
    by (auto simp: p0_inv_def one_map_def ready_ok_def p0_cleanup_def map_remove_def upd_map_def
        split: option.splits if_splits)
  ultimately show ?thesis using a by (simp add: p0_inv_def)
qed

lemma p0_step_Inr: "\<exists>s'. p0_step s e = Inr s'"
  by (cases e) (simp_all add: p0_step_def)

lemma p0_step_inv:
  assumes "p0_inv s" "p0_step s e = Inr s'"
  shows "p0_inv s'"
proof (cases "mounted s")
  case False
  with assms show ?thesis by (simp add: p0_step_def)
next
  case True
  show ?thesis
  proof (cases e)
    case (Render p')
    with True assms commit_inv[OF inv_props[OF assms(1)], of p'] show ?thesis
      by (auto simp: p0_step_def)
  next
    case Load
    with True assms commit_inv[OF fire_load_inv[OF assms(1)]] show ?thesis
      by (auto simp: p0_step_def split: if_splits)
  next
    case (Gesture c z)
    with True assms show ?thesis by (auto simp: p0_step_def gesture_inv)
  next
    case Unmount
    with True assms unmount_inv[OF assms(1) True] show ?thesis by (auto simp: p0_step_def)
  qed
qed

lemma p0_initialize_map_inv: "p0_inv (p0_initialize_map p (attach p))"
  by (simp add: p0_inv_def refs_ok_def slot_ok_def markersOf_def one_map_def ready_ok_def
      p0_initialize_map_def attach_def unmounted_def new_Map_def addControl_def on_load_def
      upd_map_def Let_def)

lemma p0_mount_inv: "p0_mount p = Inr s \<Longrightarrow> p0_inv s"
  using update_partner_marker_inv[OF update_static_markers_inv[OF p0_initialize_map_inv]]
  by (auto simp: p0_mount_def)

lemma run_p0_inv: "p0_inv s \<Longrightarrow> run p0_step s es = Inr s' \<Longrightarrow> p0_inv s'"
proof (induction es arbitrary: s)
  case Nil
  then show ?case by simp
next
  case (Cons e es)
  from p0_step_Inr obtain s1 where s1: "p0_step s e = Inr s1" by blast
  with Cons.prems p0_step_inv have "p0_inv s1" by blast
  with Cons.IH[of s1] Cons.prems(2) s1 show ?case by simp
qed

lemma run_p0_Inr: "\<exists>s'. run p0_step s es = Inr s'"
proof (induction es arbitrary: s)
  case Nil
  then show ?case by simp
next
  case (Cons e es)
  from p0_step_Inr obtain s1 where "p0_step s e = Inr s1" by blast
  with Cons.IH[of s1] show ?case by simp
qed

lemma p0_DeliveryMap_inv: "p0_DeliveryMap p es = Inr s \<Longrightarrow> p0_inv s"
  by (auto simp: p0_DeliveryMap_def split: sum.splits dest: p0_mount_inv run_p0_inv)


subsection \<open>What an effect does to the markers of each role\<close>

lemma markersOf_setLngLat_own:
  assumes "slot_ok r s" "markerRef r s = Some k"
  shows "markersOf r (setLngLat k pos s) = [(markers s ! k)\<lparr>lngLat := pos\<rparr>]"
proof -
  from slot_okD[OF assms] have kl: "k < length (markers s)"
    and kr: "role (markers s ! k) = r" and ks: "markersOf r s = [markers s ! k]" by auto
  from kl ks kr have "filter (\<lambda>m. role m = r) ((markers s)[k := (markers s ! k)\<lparr>lngLat := pos\<rparr>])
      = [(markers s ! k)\<lparr>lngLat := pos\<rparr>]"
    by (intro filter_singleton_nth) (simp_all add: markersOf_def)
  with kl show ?thesis by (simp add: markersOf_def setLngLat_def)
qed

lemma markersOf_setLngLat_other:
  assumes "slot_ok r' s" "markerRef r' s = Some k" "r \<noteq> r'"
  shows "markersOf r (setLngLat k pos s) = markersOf r s"
proof -
  from slot_okD[OF assms(1,2)] have "k < length (markers s)" "role (markers s ! k) = r'" by auto
  with assms(3) show ?thesis
    by (simp add: markersOf_def setLngLat_def filter_update_other)
qed

lemma place_restaurant_own:
  assumes "refs_ok s"
  shows "markersOf Restaurant (p0_place_restaurant i l s) = after Restaurant i l s"
proof (cases "restaurantMarkerRef s")
  case None
  with assms show ?thesis
    by (simp add: refs_ok_def slot_ok_def p0_place_restaurant_def after_def markersOf_def
        new_Marker_def)
next
  case (Some k)
  with assms markersOf_setLngLat_own[of Restaurant s k] show ?thesis
    by (simp add: refs_ok_def slot_ok_def p0_place_restaurant_def after_def)
qed

lemma place_delivery_own:
  assumes "refs_ok s"
  shows "markersOf Destination (p0_place_delivery i l s) = after Destination i l s"
proof (cases "deliveryMarkerRef s")
  case None
  with assms show ?thesis
    by (simp add: refs_ok_def slot_ok_def p0_place_delivery_def after_def markersOf_def
        new_Marker_def)
next
  case (Some k)
  with assms markersOf_setLngLat_own[of Destination s k] show ?thesis
    by (simp add: refs_ok_def slot_ok_def p0_place_delivery_def after_def)
qed

lemma place_partner_own:
  assumes "refs_ok s"
  shows "markersOf Partner (p0_place_partner i l s) = after Partner i l s"
proof (cases "partnerMarkerRef s")
  case None
  with assms show ?thesis
    by (simp add: refs_ok_def slot_ok_def p0_place_partner_def after_def markersOf_def
        new_Marker_def)
next
  case (Some k)
  with assms markersOf_setLngLat_own[of Partner s k] show ?thesis
    by (simp add: refs_ok_def slot_ok_def p0_place_partner_def after_def)
qed

lemma place_restaurant_other:
  assumes "refs_ok s" "r \<noteq> Restaurant"
  shows "markersOf r (p0_place_restaurant i l s) = markersOf r s"
    and "markerRef r (p0_place_restaurant i l s) = markerRef r s"
proof -
  from assms show "markersOf r (p0_place_restaurant i l s) = markersOf r s"
    using markersOf_setLngLat_other[of Restaurant s _ r]
    by (auto simp: refs_ok_def p0_place_restaurant_def markersOf_def new_Marker_def
        split: option.splits)
  from assms(2) show "markerRef r (p0_place_restaurant i l s) = markerRef r s"
    by (cases r) (simp_all add: p0_place_restaurant_def new_Marker_def split: option.splits)
qed

lemma place_delivery_other:
  assumes "refs_ok s" "r \<noteq> Destination"
  shows "markersOf r (p0_place_delivery i l s) = markersOf r s"
    and "markerRef r (p0_place_delivery i l s) = markerRef r s"
proof -
  from assms show "markersOf r (p0_place_delivery i l s) = markersOf r s"
    using markersOf_setLngLat_other[of Destination s _ r]
    by (auto simp: refs_ok_def p0_place_delivery_def markersOf_def new_Marker_def
        split: option.splits)
  from assms(2) show "markerRef r (p0_place_delivery i l s) = markerRef r s"
    by (cases r) (simp_all add: p0_place_delivery_def new_Marker_def split: option.splits)
qed

lemma place_partner_other:
  assumes "refs_ok s" "r \<noteq> Partner"
  shows "markersOf r (p0_place_partner i l s) = markersOf r s"
    and "markerRef r (p0_place_partner i l s) = markerRef r s"
proof -
  from assms show "markersOf r (p0_place_partner i l s) = markersOf r s"
    using markersOf_setLngLat_other[of Partner s _ r]
    by (auto simp: refs_ok_def p0_place_partner_def markersOf_def new_Marker_def
        split: option.splits)
  from assms(2) show "markerRef r (p0_place_partner i l s) = markerRef r s"
    by (cases r) (simp_all add: p0_place_partner_def new_Marker_def split: option.splits)
qed

lemma place_keeps_ref:
  "restaurantMarkerRef s = Some k \<Longrightarrow> restaurantMarkerRef (p0_place_restaurant i l s) = Some k"
  "deliveryMarkerRef s = Some k \<Longrightarrow> deliveryMarkerRef (p0_place_delivery i l s) = Some k"
  "partnerMarkerRef s = Some k \<Longrightarrow> partnerMarkerRef (p0_place_partner i l s) = Some k"
  by (simp_all add: p0_place_restaurant_def p0_place_delivery_def p0_place_partner_def
      setLngLat_def)

lemma place_sets_ref:
  "restaurantMarkerRef (p0_place_restaurant i l s) \<noteq> None"
  "deliveryMarkerRef (p0_place_delivery i l s) \<noteq> None"
  "partnerMarkerRef (p0_place_partner i l s) \<noteq> None"
  by (simp_all add: p0_place_restaurant_def p0_place_delivery_def p0_place_partner_def
      setLngLat_def new_Marker_def split: option.splits)

lemma after_cong: "markersOf r s' = markersOf r s \<Longrightarrow> after r i l s' = after r i l s"
  by (simp add: after_def)

lemma static_unfold:
  "mapRef s = Some i \<Longrightarrow> mapLoaded s \<Longrightarrow>
   p0_update_static_markers p s =
     (case deliveryLocation p of
        None \<Rightarrow> (case restaurantLocation p of None \<Rightarrow> s | Some l \<Rightarrow> p0_place_restaurant i l s)
      | Some l' \<Rightarrow> p0_place_delivery i l'
          (case restaurantLocation p of None \<Rightarrow> s | Some l \<Rightarrow> p0_place_restaurant i l s))"
  by (simp add: p0_update_static_markers_def Let_def)

lemma static_markersOf:
  assumes r: "refs_ok s" and i: "mapRef s = Some i" and l: "mapLoaded s"
  shows "markersOf r (p0_update_static_markers p s) =
     (if r = Partner then markersOf r s
      else case coordinate r p of None \<Rightarrow> markersOf r s | Some l \<Rightarrow> after r i l s)"
proof -
  define s1 where "s1 = (case restaurantLocation p of
                           None \<Rightarrow> s | Some l \<Rightarrow> p0_place_restaurant i l s)"
  have r1: "refs_ok s1"
    using r by (simp add: s1_def place_restaurant_refs split: option.splits)
  have m1: "markersOf Restaurant s1 =
      (case restaurantLocation p of None \<Rightarrow> markersOf Restaurant s
       | Some l \<Rightarrow> after Restaurant i l s)"
    using r by (simp add: s1_def place_restaurant_own split: option.splits)
  have o1: "\<And>r'. r' \<noteq> Restaurant \<Longrightarrow> markersOf r' s1 = markersOf r' s"
    using r by (simp add: s1_def place_restaurant_other split: option.splits)
  have e: "p0_update_static_markers p s =
      (case deliveryLocation p of None \<Rightarrow> s1 | Some l \<Rightarrow> p0_place_delivery i l s1)"
    unfolding s1_def using static_unfold[OF i l] by simp
  show ?thesis
  proof (cases r)
    case Restaurant
    with r1 m1 show ?thesis
      by (simp add: e place_delivery_other split: option.splits)
  next
    case Destination
    with r1 o1[of Destination] after_cong[of Destination s1 s] show ?thesis
      by (simp add: e place_delivery_own split: option.splits)
  next
    case Partner
    with r1 o1[of Partner] show ?thesis
      by (simp add: e place_delivery_other split: option.splits)
  qed
qed

lemma static_markerRef_kept:
  "markerRef r s = Some k \<Longrightarrow> markerRef r (p0_update_static_markers p s) = Some k"
  by (cases r)
     (auto simp: p0_update_static_markers_def Let_def place_keeps_ref
        p0_place_restaurant_def p0_place_delivery_def new_Marker_def
        split: option.splits)

lemma static_markerRef_same:
  "coordinate r p = None \<or> r = Partner \<Longrightarrow>
   markerRef r (p0_update_static_markers p s) = markerRef r s"
  by (cases r)
     (auto simp: p0_update_static_markers_def Let_def
        p0_place_restaurant_def p0_place_delivery_def new_Marker_def
        split: option.splits)

lemma static_markerRef_set:
  "mapRef s = Some i \<Longrightarrow> mapLoaded s \<Longrightarrow> coordinate r p = Some l \<Longrightarrow> r \<noteq> Partner \<Longrightarrow>
   markerRef r (p0_update_static_markers p s) \<noteq> None"
  by (cases r)
     (auto simp: p0_update_static_markers_def Let_def
        p0_place_restaurant_def p0_place_delivery_def new_Marker_def
        split: option.splits)

lemma markersOf_cong:
  "markers s' = markers s \<Longrightarrow> markersOf r s' = markersOf r s"
  by (simp add: markersOf_def)

lemma easeTo_markers [simp]:
  "markers (easeTo i opts s) = markers s" "markerRef r (easeTo i opts s) = markerRef r s"
  "mapRef (easeTo i opts s) = mapRef s" "mapLoaded (easeTo i opts s) = mapLoaded s"
  "mounted (easeTo i opts s) = mounted s" "props (easeTo i opts s) = props s"
  "calls (easeTo i opts s) = EaseTo i opts # calls s"
  by (cases r; simp add: easeTo_def upd_map_def)+

lemma partner_unfold:
  "mapRef s = Some i \<Longrightarrow> mapLoaded s \<Longrightarrow>
   p0_update_partner_marker p s =
     (case partnerLocation p of
        None \<Rightarrow> s
      | Some l \<Rightarrow> easeTo i (p0_ease_options l) (p0_place_partner i l s))"
  by (simp add: p0_update_partner_marker_def)

lemma partner_markersOf:
  assumes r: "refs_ok s" and i: "mapRef s = Some i" and l: "mapLoaded s"
  shows "markersOf r (p0_update_partner_marker p s) =
     (if r = Partner
      then case partnerLocation p of None \<Rightarrow> markersOf r s | Some l \<Rightarrow> after r i l s
      else markersOf r s)"
  using r
  by (simp add: partner_unfold[OF i l] place_partner_own place_partner_other
      markersOf_cong[of "easeTo _ _ _"] split: option.splits)

lemma partner_markerRef_kept:
  "markerRef r s = Some k \<Longrightarrow> markerRef r (p0_update_partner_marker p s) = Some k"
  by (cases r)
     (auto simp: p0_update_partner_marker_def easeTo_def upd_map_def
        p0_place_partner_def new_Marker_def split: option.splits)

lemma partner_markerRef_same:
  "coordinate r p = None \<or> r \<noteq> Partner \<Longrightarrow>
   markerRef r (p0_update_partner_marker p s) = markerRef r s"
  by (cases r)
     (auto simp: p0_update_partner_marker_def easeTo_def upd_map_def
        p0_place_partner_def new_Marker_def split: option.splits)

lemma static_idle:
  "mapRef s = None \<or> \<not> mapLoaded s \<Longrightarrow> p0_update_static_markers p s = s"
  by (auto simp: p0_update_static_markers_def split: option.splits)

lemma partner_idle:
  "mapRef s = None \<or> \<not> mapLoaded s \<Longrightarrow> p0_update_partner_marker p s = s"
  by (auto simp: p0_update_partner_marker_def split: option.splits)

lemma static_absent:
  assumes "refs_ok s" "coordinate r p = None"
  shows "markersOf r (p0_update_static_markers p s) = markersOf r s"
proof (cases "mapRef s = None \<or> \<not> mapLoaded s")
  case True
  then show ?thesis by (simp add: static_idle)
next
  case False
  then obtain i where "mapRef s = Some i" "mapLoaded s" by auto
  from static_markersOf[OF assms(1) this] assms(2) show ?thesis by simp
qed

lemma partner_absent:
  assumes "refs_ok s" "coordinate r p = None"
  shows "markersOf r (p0_update_partner_marker p s) = markersOf r s"
proof (cases "mapRef s = None \<or> \<not> mapLoaded s")
  case True
  then show ?thesis by (simp add: partner_idle)
next
  case False
  then obtain i where "mapRef s = Some i" "mapLoaded s" by auto
  from partner_markersOf[OF assms(1) this] assms(2) show ?thesis by auto
qed

lemma static_refs_ok: "refs_ok s \<Longrightarrow> refs_ok (p0_update_static_markers p s)"
  by (auto simp: p0_update_static_markers_def Let_def place_restaurant_refs place_delivery_refs
      split: option.splits)

lemma commit_absent:
  assumes "refs_ok s" "coordinate r p' = None"
  shows "markersOf r (p0_commit p' b' s) = markersOf r s"
    and "markerRef r (p0_commit p' b' s) = markerRef r s"
proof -
  let ?s0 = "s\<lparr>props := p', mapLoaded := b'\<rparr>"
  have r0: "refs_ok ?s0" using assms(1) refs_ok_cong[of ?s0 s] by simp
  have m0: "markersOf r ?s0 = markersOf r s" by (simp add: markersOf_def)
  have f0: "markerRef r ?s0 = markerRef r s" by (cases r) simp_all
  note r1 = static_refs_ok[OF r0, of p']
  from r0 r1 m0 assms(2) show "markersOf r (p0_commit p' b' s) = markersOf r s"
    by (simp add: p0_commit_def Let_def static_absent partner_absent)
  from f0 assms(2) show "markerRef r (p0_commit p' b' s) = markerRef r s"
    by (simp add: p0_commit_def Let_def static_markerRef_same partner_markerRef_same)
qed


subsection \<open>A role whose coordinate is absent\<close>

lemma commit_props [simp]: "props (p0_commit p' b' s) = p'"
  by (simp add: p0_commit_def Let_def p0_update_partner_marker_def easeTo_def upd_map_def
      split: option.splits)

lemma fire_load_markers [simp]:
  "markers (fire_load s) = markers s" "markerRef r (fire_load s) = markerRef r s"
  "props (fire_load s) = props s"
  by (cases r; simp add: fire_load_def upd_map_def split: option.splits)+

lemma gesture_markers [simp]:
  "markers (gesture c z s) = markers s" "markerRef r (gesture c z s) = markerRef r s"
  "props (gesture c z s) = props s"
  by (cases r; simp add: gesture_def upd_map_def split: option.splits)+

lemma cleanup_markers [simp]:
  "markers (p0_cleanup s) = markers s" "markerRef r (p0_cleanup s) = markerRef r s"
  "props (p0_cleanup s) = props s"
  by (cases r; simp add: p0_cleanup_def map_remove_def upd_map_def split: option.splits)+

lemma markerRef_mounted [simp]: "markerRef r (s\<lparr>mounted := b\<rparr>) = markerRef r s"
  by (cases r) simp_all

lemma p0_step_absent:
  assumes inv: "p0_inv s" and q: "coordinate r (props s) = None" and e: "\<not> supplies r e"
    and st: "p0_step s e = Inr s'"
  shows "markersOf r s' = markersOf r s \<and> markerRef r s' = markerRef r s
         \<and> coordinate r (props s') = None"
proof (cases "mounted s")
  case False
  with st q show ?thesis by (simp add: p0_step_def)
next
  case True
  from inv have r: "refs_ok s" by (simp add: p0_inv_def)
  show ?thesis
  proof (cases e)
    case (Render p')
    with e have "coordinate r p' = None" by simp
    with True Render st commit_absent[OF r this] show ?thesis
      by (auto simp: p0_step_def)
  next
    case Load
    have "refs_ok (fire_load s) = refs_ok s"
      by (rule refs_ok_cong) (simp_all add: fire_load_def upd_map_def split: option.splits)
    with r have rf: "refs_ok (fire_load s)" by simp
    from commit_absent[OF rf, of r "props s" True] q True Load st show ?thesis
      by (auto simp: p0_step_def markersOf_cong[of "fire_load s" s] split: if_splits)
  next
    case (Gesture c z)
    with True st q show ?thesis
      by (auto simp: p0_step_def markersOf_cong[of "gesture c z s" s])
  next
    case Unmount
    with True st q show ?thesis
      by (auto simp: p0_step_def markersOf_def)
  qed
qed

lemma run_p0_absent:
  "p0_inv s \<Longrightarrow> coordinate r (props s) = None \<Longrightarrow> \<forall>e \<in> set es. \<not> supplies r e \<Longrightarrow>
   run p0_step s es = Inr s' \<Longrightarrow>
   markersOf r s' = markersOf r s \<and> markerRef r s' = markerRef r s"
proof (induction es arbitrary: s)
  case Nil
  then show ?case by simp
next
  case (Cons e es)
  from p0_step_Inr obtain s1 where s1: "p0_step s e = Inr s1" by blast
  from p0_step_inv[OF Cons.prems(1) s1] have i1: "p0_inv s1" .
  from Cons.prems(3) have e: "\<not> supplies r e" and es: "\<forall>e \<in> set es. \<not> supplies r e" by simp_all
  from p0_step_absent[OF Cons.prems(1,2) e s1]
  have a: "markersOf r s1 = markersOf r s" "markerRef r s1 = markerRef r s"
    "coordinate r (props s1) = None" by simp_all
  from Cons.prems(4) s1 have "run p0_step s1 es = Inr s'" by simp
  from Cons.IH[OF i1 a(3) es this] a show ?case by simp
qed

lemma p0_mount_fresh:
  "p0_mount p = Inr s \<Longrightarrow> markers s = [] \<and> props s = p \<and> markerRef r s = None"
  by (cases r)
     (auto simp: p0_mount_def p0_initialize_map_def attach_def unmounted_def Let_def
        new_Map_def addControl_def on_load_def upd_map_def static_idle partner_idle)

lemma p0_never_supplied:
  assumes "coordinate r p = None" "\<forall>e \<in> set es. \<not> supplies r e"
    and "p0_DeliveryMap p es = Inr s"
  shows "markersOf r s = [] \<and> markerRef r s = None"
proof -
  from assms(3) obtain s0 where s0: "p0_mount p = Inr s0" "run p0_step s0 es = Inr s"
    by (auto simp: p0_DeliveryMap_def split: sum.splits)
  from p0_mount_fresh[OF s0(1), of r] have f: "markers s0 = []" "props s0 = p"
    "markerRef r s0 = None" by simp_all
  from run_p0_absent[OF p0_mount_inv[OF s0(1)] _ assms(2) s0(2)] f assms(1)
  show ?thesis by (simp add: markersOf_def)
qed

lemma none_setLngLat: "markersOf r s = [] \<Longrightarrow> markersOf r (setLngLat k pos s) = []"
proof -
  assume a: "markersOf r s = []"
  show ?thesis
  proof (cases "k < length (markers s)")
    case False
    with a show ?thesis by (simp add: setLngLat_def)
  next
    case True
    then have "markers s ! k \<in> set (markers s)" by simp
    with a have "role (markers s ! k) \<noteq> r" by (auto simp: markersOf_def filter_empty_conv)
    with a True show ?thesis
      by (simp add: markersOf_def setLngLat_def filter_update_other)
  qed
qed

lemma flyTo_markers [simp]: "markers (flyTo i c v s) = markers s"
  by (simp add: flyTo_def upd_map_def)

lemma dm_update_markers_absent:
  "coordinate r p = None \<Longrightarrow> markersOf r s = [] \<Longrightarrow> markersOf r (dm_update_markers p s) = []"
  by (cases r)
     (auto simp: dm_update_markers_def Let_def markersOf_new_Marker split: option.splits)

lemma dm_update_partner_marker_absent:
  "coordinate r p = None \<Longrightarrow> markersOf r s = [] \<Longrightarrow>
   markersOf r (dm_update_partner_marker p s) = []"
  by (cases r)
     (auto simp: dm_update_partner_marker_def dm_place_partner_def none_setLngLat
        markersOf_cong[of "flyTo _ _ _ _"] markersOf_new_Marker
        markersOf_cong[of "_\<lparr>partnerMarkerRef := _\<rparr>"] split: option.splits)

lemma dm_other_markers [simp]:
  "markers (dm_fit_bounds cfb p s) = markers s"
  "markers (dm_initialize_map p s) = markers s"
  "markers (dm_cleanup s) = markers s"
  by (simp_all add: dm_fit_bounds_def dm_initialize_map_def dm_cleanup_def fitBounds_def
      new_Map_def addControl_def on_load_def map_remove_def upd_map_def Let_def
      split: option.splits)

lemma dm_commit_absent:
  assumes "coordinate r p' = None" "markersOf r s = []" "dm_commit cfb p' b' s = Inr s'"
  shows "markersOf r s' = [] \<and> props s' = p'"
proof -
  let ?s0 = "s\<lparr>props := p', mapLoaded := b'\<rparr>"
  have 0: "markersOf r ?s0 = []" using assms(2) by (simp add: markersOf_def)
  have fr: "\<And>t. markersOf r (dm_initialize_map p' (dm_cleanup t)) = markersOf r t"
    "\<And>t. markersOf r (dm_fit_bounds cfb p' t) = markersOf r t"
    by (simp_all add: markersOf_def)
  have pr: "\<And>t. props (dm_initialize_map p' t) = props t" "\<And>t. props (dm_cleanup t) = props t"
    "\<And>t. props (dm_update_markers p' t) = props t"
    "\<And>t. props (dm_update_partner_marker p' t) = props t"
    "\<And>t. props (dm_fit_bounds cfb p' t) = props t"
    by (simp_all add: lib_defs dm_defs split: option.splits)
  from assms(3) 0 show ?thesis
    by (auto simp: dm_commit_def Let_def fr pr dm_update_markers_absent[OF assms(1)]
        dm_update_partner_marker_absent[OF assms(1)] split: sum.splits)
qed

lemma dm_step_absent:
  assumes q: "coordinate r (props s) = None" "markersOf r s = []" and e: "\<not> supplies r e"
    and st: "dm_step cfb s e = Inr s'"
  shows "markersOf r s' = [] \<and> coordinate r (props s') = None"
proof (cases "mounted s")
  case False
  with st q show ?thesis by (simp add: dm_step_def)
next
  case True
  show ?thesis
  proof (cases e)
    case (Render p')
    with e have c: "coordinate r p' = None" by simp
    from True Render st have "dm_commit cfb p' (mapLoaded s) s = Inr s'"
      by (simp add: dm_step_def)
    from dm_commit_absent[OF c q(2) this] c show ?thesis by simp
  next
    case Load
    show ?thesis
    proof (cases "load_enabled s")
      case False
      with True Load st q show ?thesis by (simp add: dm_step_def)
    next
      case en: True
      have m: "markersOf r (fire_load s) = []" using q(2)
        by (simp add: markersOf_cong[of "fire_load s" s])
      from True Load st en have "dm_commit cfb (props s) True (fire_load s) = Inr s'"
        by (simp add: dm_step_def)
      from dm_commit_absent[OF q(1) m this] q(1) show ?thesis by simp
    qed
  next
    case (Gesture c z)
    with True st q show ?thesis
      by (auto simp: dm_step_def markersOf_cong[of "gesture c z s" s])
  next
    case Unmount
    with True st q show ?thesis
      by (auto simp: dm_step_def markersOf_def dm_cleanup_def map_remove_def upd_map_def
          split: option.splits)
  qed
qed

lemma run_dm_absent:
  "coordinate r (props s) = None \<Longrightarrow> markersOf r s = [] \<Longrightarrow>
   \<forall>e \<in> set es. \<not> supplies r e \<Longrightarrow> run (dm_step cfb) s es = Inr s' \<Longrightarrow> markersOf r s' = []"
proof (induction es arbitrary: s)
  case Nil
  then show ?case by simp
next
  case (Cons e es)
  from Cons.prems(4) obtain s1 where s1: "dm_step cfb s e = Inr s1"
    "run (dm_step cfb) s1 es = Inr s'"
    by (auto split: sum.splits)
  from Cons.prems(3) have e: "\<not> supplies r e" and es: "\<forall>e \<in> set es. \<not> supplies r e" by simp_all
  from dm_step_absent[OF Cons.prems(1,2) e s1(1)] Cons.IH[OF _ _ es s1(2)]
  show ?case by simp
qed

lemma dm_mount_fresh: "dm_mount cfb p = Inr s \<Longrightarrow> markers s = [] \<and> props s = p"
  by (auto simp: dm_mount_def dm_initialize_map_def attach_def unmounted_def Let_def
      new_Map_def addControl_def on_load_def upd_map_def dm_update_markers_def
      dm_update_partner_marker_def dm_fit_bounds_def split: sum.splits)

lemma dm_never_supplied:
  assumes "coordinate r p = None" "\<forall>e \<in> set es. \<not> supplies r e"
    and "dm_DeliveryMap cfb p es = Inr s"
  shows "markersOf r s = []"
proof -
  from assms(3) obtain s0 where s0: "dm_mount cfb p = Inr s0" "run (dm_step cfb) s0 es = Inr s"
    by (auto simp: dm_DeliveryMap_def split: sum.splits)
  from dm_mount_fresh[OF s0(1)] have f: "markers s0 = []" "props s0 = p" by simp_all
  from run_dm_absent[OF _ _ assms(2) s0(2)] f assms(1)
  show ?thesis by (simp add: markersOf_def)
qed


subsection \<open>What a render does to the markers of each role\<close>

lemma commit_markersOf:
  assumes r: "refs_ok s" and i: "mapRef s = Some i" and b: "b'"
  shows "markersOf r (p0_commit p' b' s) =
     (case coordinate r p' of
        None \<Rightarrow> markersOf r s
      | Some l \<Rightarrow> if p0_runs r p' b' s then after r i l s else markersOf r s)"
proof -
  let ?s0 = "s\<lparr>props := p', mapLoaded := b'\<rparr>"
  let ?s1 = "if p0_static_deps b' p' \<noteq> p0_static_deps (mapLoaded s) (props s)
             then p0_update_static_markers p' ?s0 else ?s0"
  have r0: "refs_ok ?s0" using r refs_ok_cong[of ?s0 s] by simp
  have i0: "mapRef ?s0 = Some i" "mapLoaded ?s0" using i b by simp_all
  have m0: "\<And>r. markersOf r ?s0 = markersOf r s" by (simp add: markersOf_def)
  have a0: "\<And>r l. after r i l ?s0 = after r i l s" by (simp add: after_def m0)
  have r1: "refs_ok ?s1" using r0 by (simp add: static_refs_ok)
  have i1: "mapRef ?s1 = Some i" "mapLoaded ?s1" using i0 by simp_all
  have m1: "markersOf r ?s1 =
      (if r \<noteq> Partner \<and> p0_runs r p' b' s
       then case coordinate r p' of None \<Rightarrow> markersOf r s | Some l \<Rightarrow> after r i l s
       else markersOf r s)"
    using static_markersOf[OF r0 i0, of r p']
    by (auto simp: p0_runs_def m0 a0 split: option.splits)
  have c: "p0_commit p' b' s =
      (if p0_partner_deps b' p' \<noteq> p0_partner_deps (mapLoaded s) (props s)
       then p0_update_partner_marker p' ?s1 else ?s1)"
    by (simp add: p0_commit_def Let_def)
  show ?thesis
  proof (cases "r = Partner")
    case True
    from m1 True have "markersOf Partner ?s1 = markersOf Partner s" by simp
    then have "\<And>l. after Partner i l ?s1 = after Partner i l s" by (simp add: after_def)
    with True partner_markersOf[OF r1 i1, of Partner p'] m1 show ?thesis
      unfolding c by (auto simp: p0_runs_def split: option.splits)
  next
    case False
    with partner_markersOf[OF r1 i1, of r p'] m1 show ?thesis
      unfolding c by (auto split: option.splits)
  qed
qed

lemma commit_markerRef_kept:
  "markerRef r s = Some k \<Longrightarrow> markerRef r (p0_commit p' b' s) = Some k"
proof -
  assume a: "markerRef r s = Some k"
  then have "markerRef r (s\<lparr>props := p', mapLoaded := b'\<rparr>) = Some k" by (cases r) simp_all
  then show ?thesis
    by (simp add: p0_commit_def Let_def static_markerRef_kept partner_markerRef_kept)
qed

lemma commit_frame [simp]:
  "mounted (p0_commit p' b' s) = mounted s"
  "mapRef (p0_commit p' b' s) = mapRef s"
  "mapLoaded (p0_commit p' b' s) = b'"
  by (simp_all add: p0_commit_def Let_def p0_update_partner_marker_def split: option.splits)

lemma after_none: "markersOf r s = [] \<Longrightarrow> after r i l s = [\<lparr>role = r, lngLat = lngLatOf l, onMap = i\<rparr>]"
  by (simp add: after_def)

lemma after_some: "markersOf r s = [m] \<Longrightarrow> after r i l s = [m\<lparr>lngLat := lngLatOf l\<rparr>]"
  by (simp add: after_def)

lemma after_lngLat: "\<exists>m. after r i l s = [m] \<and> lngLat m = lngLatOf l"
  by (simp add: after_def split: list.splits)


subsection \<open>\<^verbatim>\<open>part_000\<close> over a whole mount\<close>

lemma count_by_ref:
  "refs_ok s \<Longrightarrow> length (markersOf r s) = (case markerRef r s of None \<Rightarrow> 0 | Some k \<Rightarrow> 1)"
  using refs_ok_all[of s r] by (simp add: slot_ok_def split: option.splits)

lemma p0_at_most_one_live_marker:
  assumes "p0_DeliveryMap p es = Inr s"
  shows "liveMarkers r s \<le> 1"
proof -
  from p0_DeliveryMap_inv[OF assms] have "refs_ok s" by (simp add: p0_inv_def)
  from count_by_ref[OF this, of r] have "length (markersOf r s) \<le> 1"
    by (simp split: option.splits)
  moreover have "liveMarkers r s \<le> length (markersOf r s)"
    by (simp add: liveMarkers_def)
  ultimately show ?thesis by simp
qed

lemma p0_one_map_instance:
  assumes "p0_DeliveryMap p es = Inr s"
  shows "length (maps s) = 1 \<and> mapRef s = (if mounted s then Some 0 else None)"
  using p0_DeliveryMap_inv[OF assms] by (simp add: p0_inv_def one_map_def)

lemma p0_never_raises: "\<exists>s. p0_DeliveryMap p es = Inr s"
  using run_p0_Inr by (simp add: p0_DeliveryMap_def p0_mount_def)

lemma p0_calls_gated: "p0_DeliveryMap p es = Inr s \<Longrightarrow> gated (calls s)"
  by (drule p0_DeliveryMap_inv) (simp add: p0_inv_def ready_ok_def)

lemma live_all:
  assumes "p0_inv s" "mounted s"
  shows "liveMarkers r s = length (markersOf r s)"
proof -
  from assms have "\<forall>m \<in> set (markers s). live s m"
    by (auto simp: p0_inv_def one_map_def live_def)
  then have "filter (live s) (markersOf r s) = markersOf r s"
    unfolding markersOf_def by (intro iffD2[OF filter_id_conv]) simp
  then show ?thesis by (simp add: liveMarkers_def)
qed

lemma live_none:
  assumes "p0_inv s" "\<not> mounted s"
  shows "liveMarkers r s = 0"
proof -
  from assms have "\<forall>m \<in> set (markers s). \<not> live s m"
    by (auto simp: p0_inv_def one_map_def live_def)
  then have "filter (live s) (markersOf r s) = []"
    by (simp add: markersOf_def filter_empty_conv)
  then show ?thesis by (simp add: liveMarkers_def)
qed

lemma p0_step_ref_kept:
  assumes "markerRef r s = Some k" "p0_step s e = Inr s'"
  shows "markerRef r s' = Some k"
proof (cases "mounted s")
  case False
  with assms show ?thesis by (simp add: p0_step_def)
next
  case True
  with assms show ?thesis
    by (cases e) (auto simp: p0_step_def commit_markerRef_kept split: if_splits)
qed

lemma p0_step_mounted:
  "mounted s \<Longrightarrow> e \<noteq> Unmount \<Longrightarrow> p0_step s e = Inr s' \<Longrightarrow> mounted s'"
  by (cases e)
     (auto simp: p0_step_def fire_load_def gesture_def upd_map_def
        split: if_splits option.splits)

lemma p0_step_keeps_markers:
  assumes inv: "p0_inv s" and m: "mounted s" and e: "e \<noteq> Unmount" and st: "p0_step s e = Inr s'"
  shows "liveMarkers r s \<le> liveMarkers r s'"
proof -
  from p0_step_inv[OF inv st] have inv': "p0_inv s'" .
  from p0_step_mounted[OF m e st] have m': "mounted s'" .
  from inv inv' have r: "refs_ok s" "refs_ok s'" by (simp_all add: p0_inv_def)
  have "length (markersOf r s) \<le> length (markersOf r s')"
  proof (cases "markerRef r s")
    case None
    with count_by_ref[OF r(1), of r] show ?thesis by simp
  next
    case (Some k)
    from p0_step_ref_kept[OF Some st] Some count_by_ref[OF r(1), of r] count_by_ref[OF r(2), of r]
    show ?thesis by simp
  qed
  with live_all[OF inv m] live_all[OF inv' m'] show ?thesis by simp
qed

lemma p0_render_absent:
  assumes inv: "p0_inv s" and m: "mounted s" and c: "coordinate r p' = None"
  shows "outcome (\<lambda>s'. (markerRef r s', markersOf r s', liveMarkers r s')) (p0_step s (Render p'))
         = Inr (markerRef r s, markersOf r s, liveMarkers r s)"
proof -
  let ?s' = "p0_commit p' (mapLoaded s) s"
  have st: "p0_step s (Render p') = Inr ?s'" using m by (simp add: p0_step_def)
  from inv have r: "refs_ok s" by (simp add: p0_inv_def)
  from p0_step_inv[OF inv st] have inv': "p0_inv ?s'" .
  have m': "mounted ?s'" using m by simp
  from commit_absent[OF r c, of "mapLoaded s"] live_all[OF inv m, of r] live_all[OF inv' m', of r]
  show ?thesis by (simp add: st outcome_def)
qed

lemma p0_unmount_removes:
  assumes inv: "p0_inv s" and m: "mounted s"
  shows "outcome (liveMarkers r) (p0_step s Unmount) = Inr 0"
proof -
  let ?s' = "(p0_cleanup s)\<lparr>mounted := False\<rparr>"
  have st: "p0_step s Unmount = Inr ?s'" using m by (simp add: p0_step_def)
  from p0_step_inv[OF inv st] have "p0_inv ?s'" .
  from live_none[OF this, of r] show ?thesis by (simp add: st outcome_def)
qed


subsection \<open>\<^verbatim>\<open>part_000\<close>: creating, repositioning, idempotence, deferred updates\<close>

lemma commit_idle: "\<not> b' \<Longrightarrow> p0_commit p' b' s = s\<lparr>props := p', mapLoaded := b'\<rparr>"
  by (simp add: p0_commit_def Let_def static_idle partner_idle)

lemma p0_render_step:
  "mounted s \<Longrightarrow> p0_step s (Render p') = Inr (p0_commit p' (mapLoaded s) s)"
  by (simp add: p0_step_def)

lemma p0_static_marker_created_or_repositioned:
  assumes reach: "p0_DeliveryMap p es = Inr s" and m: "mounted s" and l: "mapLoaded s"
    and r: "r \<noteq> Partner" and c: "coordinate r p' = Some l" and n: "p0_runs r p' (mapLoaded s) s"
  shows "outcome (\<lambda>s'. (markersOf r s', markerRef r s')) (p0_step s (Render p'))
         = Inr (case markerRef r s of
                  None \<Rightarrow> ([\<lparr>role = r, lngLat = lngLatOf l, onMap = 0\<rparr>],
                            markerRef r (p0_commit p' True s))
                | Some k \<Rightarrow> ([(markers s ! k)\<lparr>lngLat := lngLatOf l\<rparr>], Some k))
         \<and> markerRef r (p0_commit p' True s) \<noteq> None"
proof -
  from p0_DeliveryMap_inv[OF reach] have inv: "p0_inv s" .
  then have ro: "refs_ok s" by (simp add: p0_inv_def)
  from inv_mapRef[OF inv] m have i: "mapRef s = Some 0" by simp
  let ?s' = "p0_commit p' True s"
  have st: "p0_step s (Render p') = Inr ?s'" using p0_render_step[OF m] l by simp
  from commit_markersOf[OF ro i, of True r p'] c n l
  have mo: "markersOf r ?s' = after r 0 l s" by simp
  from p0_step_inv[OF inv st] have "refs_ok ?s'" by (simp add: p0_inv_def)
  from refs_ok_all[OF this, of r] mo have nn: "markerRef r ?s' \<noteq> None"
    by (cases "markerRef r ?s'") (simp_all add: slot_ok_def after_def)
  show ?thesis
  proof (cases "markerRef r s")
    case None
    from refs_ok_all[OF ro, of r] None have "markersOf r s = []" by (simp add: slot_ok_def)
    with mo None nn show ?thesis by (simp add: st outcome_def after_none)
  next
    case (Some k)
    from slot_okD[OF refs_ok_all[OF ro] Some] have "markersOf r s = [markers s ! k]" by simp
    with mo Some nn commit_markerRef_kept[OF Some, of p' True] show ?thesis
      by (simp add: st outcome_def after_some)
  qed
qed

lemma p0_identical_coordinate_idempotent:
  assumes reach: "p0_DeliveryMap p es = Inr s" and m: "mounted s"
    and c: "coordinate r p' = Some l" and k: "markersOf r s = [x]" "lngLat x = lngLatOf l"
  shows "outcome (\<lambda>s'. (markersOf r s', markerRef r s')) (p0_step s (Render p'))
         = Inr (markersOf r s, markerRef r s)"
proof -
  from p0_DeliveryMap_inv[OF reach] have inv: "p0_inv s" .
  then have ro: "refs_ok s" by (simp add: p0_inv_def)
  from inv_mapRef[OF inv] m have i: "mapRef s = Some 0" by simp
  let ?s' = "p0_commit p' (mapLoaded s) s"
  from refs_ok_all[OF ro, of r] k(1) obtain j where j: "markerRef r s = Some j"
    by (cases "markerRef r s") (auto simp: slot_ok_def)
  have rf: "markerRef r ?s' = markerRef r s" using commit_markerRef_kept[OF j] j by simp
  have "x\<lparr>lngLat := lngLatOf l\<rparr> = x" using k(2) by simp
  then have a: "after r 0 l s = [x]" using k(1) by (simp add: after_def)
  have "markersOf r ?s' = markersOf r s"
  proof (cases "mapLoaded s")
    case True
    from commit_markersOf[OF ro i, of "mapLoaded s" r p'] True c a k(1) show ?thesis by simp
  next
    case False
    then show ?thesis by (simp add: commit_idle markersOf_def)
  qed
  with rf show ?thesis by (simp add: p0_render_step[OF m] outcome_def)
qed

lemma p0_load_applies_pending:
  assumes reach: "p0_DeliveryMap p es = Inr s" and m: "mounted s" and l: "\<not> mapLoaded s"
    and c: "coordinate r (props s) = Some l"
  shows "\<exists>s' x. p0_step s Load = Inr s' \<and> mapLoaded s' \<and> markersOf r s' = [x]
                \<and> lngLat x = lngLatOf l"
proof -
  from p0_DeliveryMap_inv[OF reach] have inv: "p0_inv s" .
  then have ro: "refs_ok s" by (simp add: p0_inv_def)
  from inv_mapRef[OF inv] m have i: "mapRef s = Some 0" by simp
  from inv m l i have en: "load_enabled s"
    by (auto simp: load_enabled_def p0_inv_def one_map_def ready_ok_def)
  let ?f = "fire_load s"
  let ?s' = "p0_commit (props s) True ?f"
  have st: "p0_step s Load = Inr ?s'" using m en by (simp add: p0_step_def)
  have "refs_ok ?f = refs_ok s"
    by (rule refs_ok_cong) (simp_all add: fire_load_def upd_map_def split: option.splits)
  with ro have rf: "refs_ok ?f" by simp
  have fi: "mapRef ?f = Some 0" "\<not> mapLoaded ?f" using i l
    by (simp_all add: fire_load_def upd_map_def)
  then have "p0_runs r (props s) True ?f"
    by (simp add: p0_runs_def p0_static_deps_def p0_partner_deps_def)
  with commit_markersOf[OF rf fi(1), of True r "props s"] c
  have "markersOf r ?s' = after r 0 l ?f" by simp
  with after_lngLat[of r 0 l ?f] st show ?thesis by auto
qed

lemma easeTo_camera:
  "i < length (maps s) \<Longrightarrow>
   center (maps (easeTo i (p0_ease_options l) s) ! i) = lngLatOf l \<and>
   zoom (maps (easeTo i (p0_ease_options l) s) ! i) = zoom (maps s ! i)"
  by (simp add: easeTo_def upd_map_def p0_ease_options_def)

lemma p0_partner_update_camera:
  assumes reach: "p0_DeliveryMap p es = Inr s" and m: "mounted s" and l: "mapLoaded s"
    and c: "partnerLocation p' = Some l" and n: "p0_runs Partner p' (mapLoaded s) s"
  shows "outcome (\<lambda>s'. (hd (calls s'), center (maps s' ! 0), zoom (maps s' ! 0),
                        markersOf Partner s')) (p0_step s (Render p'))
         = Inr (EaseTo 0 (p0_ease_options l), lngLatOf l, zoom (maps s ! 0), after Partner 0 l s)"
proof -
  from p0_DeliveryMap_inv[OF reach] have inv: "p0_inv s" .
  then have ro: "refs_ok s" and len: "length (maps s) = 1" by (simp_all add: p0_inv_def one_map_def)
  from inv_mapRef[OF inv] m have i: "mapRef s = Some 0" by simp
  let ?s0 = "s\<lparr>props := p', mapLoaded := True\<rparr>"
  let ?s1 = "if p0_static_deps True p' \<noteq> p0_static_deps (mapLoaded s) (props s)
             then p0_update_static_markers p' ?s0 else ?s0"
  let ?s' = "p0_commit p' True s"
  have st: "p0_step s (Render p') = Inr ?s'" using p0_render_step[OF m] l by simp
  have i1: "mapRef ?s1 = Some 0" "mapLoaded ?s1" "maps ?s1 = maps s" using i by simp_all
  have e: "?s' = easeTo 0 (p0_ease_options l) (p0_place_partner 0 l ?s1)"
    using n l c partner_unfold[OF i1(1,2), of p']
    by (simp add: p0_commit_def Let_def p0_runs_def)
  have len': "0 < length (maps (p0_place_partner 0 l ?s1))" using i1(3) len by simp
  from easeTo_camera[OF len', of l] i1(3)
  have cam: "center (maps ?s' ! 0) = lngLatOf l" "zoom (maps ?s' ! 0) = zoom (maps s ! 0)"
    unfolding e by simp_all
  have "hd (calls ?s') = EaseTo 0 (p0_ease_options l)" unfolding e by simp
  moreover from commit_markersOf[OF ro i, of True Partner p'] c n l
  have "markersOf Partner ?s' = after Partner 0 l s" by simp
  ultimately show ?thesis using cam by (simp add: st outcome_def)
qed

lemma dm_partner_effect_flies:
  assumes "mapRef t = Some i" "mapLoaded t" "partnerLocation p' = Some l"
  shows "hd (calls (dm_update_partner_marker p' t)) = FlyTo i (lngLatOf l) 0.5"
  using assms by (simp add: dm_update_partner_marker_def flyTo_def)

lemma p0_mapLoaded_stays:
  assumes "p0_inv s" "mapLoaded s" "p0_step s e = Inr s'"
  shows "mapLoaded s'"
proof (cases "mounted s")
  case False
  with assms show ?thesis by (simp add: p0_step_def)
next
  case True
  with assms show ?thesis
    by (cases e)
       (auto simp: p0_step_def gesture_def upd_map_def p0_cleanup_def map_remove_def
          split: if_splits option.splits)
qed

subsection \<open>Marker styling\<close>

lemma marker_background_inj: "marker_background r = marker_background r' \<Longrightarrow> r = r'"
  by (cases r; cases r') simp_all

lemma partner_marker_larger: "r \<noteq> Partner \<Longrightarrow> marker_size r < marker_size Partner"
  by (cases r) simp_all

subsection \<open>A role that never gets a coordinate, over a whole mount\<close>

lemma p0_no_coordinate_no_marker:
  assumes "coordinate r p = None" and "\<forall>e \<in> set es. \<not> supplies r e"
  shows "outcome (\<lambda>s. (markersOf r s, markerRef r s)) (p0_DeliveryMap p es) = Inr ([], None)"
proof -
  from p0_never_raises obtain s where s: "p0_DeliveryMap p es = Inr s" by blast
  from p0_never_supplied[OF assms s] s show ?thesis by (simp add: outcome_def)
qed

lemma dm_throws_without_partner:
  "partnerLocation p = None \<Longrightarrow> dm_DeliveryMap cfb p es = Inl TypeError"
  by (simp add: dm_DeliveryMap_def dm_mount_def dm_partner_deps_def getProp_def)

section \<open>The claims\<close>

text \<open>
  C1. For every sequence of coordinate updates for a fixed role during one mount, the
  number of live markers of that role never exceeds 1. \<^verbatim>\<open>delivery-map.tsx\<close> breaks this:
  mounted with a restaurant and a partner coordinate, loaded, then rendered with another
  restaurant coordinate, it has two live restaurant markers. \<^verbatim>\<open>part_000\<close> keeps the
  bound in every reachable state (lemma \<open>p0_at_most_one_live_marker\<close>).
\<close>

theorem dm_restaurant_marker_duplicated:
  "outcome (liveMarkers Restaurant)
     (dm_DeliveryMap cfb (ex_props (Some ex_R1) None (Some ex_P1))
        [Load, Render (ex_props (Some ex_R2) None (Some ex_P1))]) = Inr 2"
  by (simp add: lib_defs dm_defs ex_defs obs_defs)

text \<open>
  C2. The map instance is created exactly once during a mount, whatever the coordinate
  props do. \<^verbatim>\<open>delivery-map.tsx\<close> breaks this: a second partner coordinate removes
  the first map instance and creates another. \<^verbatim>\<open>part_000\<close> has one map instance in
  every reachable state (lemma \<open>p0_one_map_instance\<close>).
\<close>

theorem dm_map_rebuilt_on_partner_update:
  "outcome (\<lambda>s. (length (maps s), map removed (maps s)))
     (dm_DeliveryMap cfb (ex_props None None (Some ex_P1))
        [Render (ex_props None None (Some ex_P2))]) = Inr (2, [True, False])"
  by (simp add: lib_defs dm_defs ex_defs obs_defs)

text \<open>
  C5. Rendering with any subset of the three coordinate props raises no error.
  \<^verbatim>\<open>delivery-map.tsx\<close> breaks this: without a partner coordinate its first render throws.
  \<^verbatim>\<open>part_000\<close> raises nothing on any props and events (lemma \<open>p0_never_raises\<close>).
\<close>

theorem dm_render_throws_without_partner:
  "dm_DeliveryMap cfb (ex_props (Some ex_R1) (Some ex_D1) None) [] = Inl TypeError"
  by (simp add: lib_defs dm_defs ex_defs obs_defs)

text \<open>
  C6. A new restaurant or destination coordinate creates the role's marker if there is
  none and otherwise repositions the existing one, creating no marker.
  \<^verbatim>\<open>delivery-map.tsx\<close> breaks this: the second restaurant coordinate leaves the first
  marker where it was and adds a second one. \<^verbatim>\<open>part_000\<close> does what the claim says
  (lemma \<open>p0_static_marker_created_or_repositioned\<close>).
\<close>

theorem dm_restaurant_update_adds_marker:
  "outcome (markersOf Restaurant)
     (dm_DeliveryMap cfb (ex_props (Some ex_R1) None (Some ex_P1))
        [Load, Render (ex_props (Some ex_R2) None (Some ex_P1))])
   = Inr [\<lparr>role = Restaurant, lngLat = (77.59, 12.97), onMap = 0\<rparr>,
          \<lparr>role = Restaurant, lngLat = (77.60, 12.98), onMap = 0\<rparr>]"
  by (simp add: lib_defs dm_defs ex_defs obs_defs)

text \<open>
  C7. Delivering again the coordinate a role is already marked at creates no marker and
  leaves the role's marker state as it was. \<^verbatim>\<open>delivery-map.tsx\<close> breaks this: rendered
  with the same restaurant coordinate and another destination coordinate, it adds a second
  restaurant marker at the same place. \<^verbatim>\<open>part_000\<close> does what the claim says
  (lemma \<open>p0_identical_coordinate_idempotent\<close>).
\<close>

theorem dm_identical_restaurant_duplicated:
  "outcome (\<lambda>s. (markersOf Restaurant s, liveMarkers Restaurant s))
     (dm_DeliveryMap cfb (ex_props (Some ex_R1) (Some ex_D1) (Some ex_P1))
        [Load, Render (ex_props (Some ex_R1) (Some ex_D2) (Some ex_P1))])
   = Inr ([\<lparr>role = Restaurant, lngLat = (77.59, 12.97), onMap = 0\<rparr>,
           \<lparr>role = Restaurant, lngLat = (77.59, 12.97), onMap = 0\<rparr>], 2)"
  by (simp add: lib_defs dm_defs ex_defs obs_defs)

text \<open>
  C9. No marker or camera operation runs before the load event of the map instance.
  \<^verbatim>\<open>delivery-map.tsx\<close> breaks this: after the rebuild of the map on a partner update,
  \<open>mapLoaded\<close> is still true from the first instance, and the partner effect moves the
  marker and flies the camera of the second instance, whose load event has not fired.
  In \<^verbatim>\<open>part_000\<close> every recorded marker or camera call comes after the load event (lemma
  \<open>p0_calls_gated\<close>), and the load event applies the coordinates rendered before it
  (lemma \<open>p0_load_applies_pending\<close>).
\<close>

theorem dm_camera_before_load:
  "outcome (\<lambda>s. (take 2 (calls s), LoadFired 1 \<in> set (calls s), gated (calls s)))
     (dm_DeliveryMap cfb (ex_props None None (Some ex_P1))
        [Load, Render (ex_props None None (Some ex_P2))])
   = Inr ([FlyTo 1 (77.61, 12.91) 0.5, SetLngLat 0 (77.61, 12.91) 0], False, False)"
  by (simp add: lib_defs dm_defs ex_defs obs_defs)

text \<open>
  C8. A role for which no coordinate is ever supplied never gets a marker, and the absent
  coordinate is not an error. \<^verbatim>\<open>delivery-map.tsx\<close> breaks the second half for the partner
  role: mounted with a restaurant coordinate only, its first render throws, so the run ends
  in an error instead of a map without a partner marker. In \<^verbatim>\<open>part_000\<close> the claim holds
  for every role (lemma \<open>p0_no_coordinate_no_marker\<close>); in \<^verbatim>\<open>delivery-map.tsx\<close> no
  marker is made for an absent restaurant or destination coordinate in any run that
  completes (lemma \<open>dm_never_supplied\<close>), and every run without a partner coordinate
  throws (lemma \<open>dm_throws_without_partner\<close>).
\<close>

theorem dm_absent_partner_is_an_error:
  "dm_DeliveryMap cfb (ex_props (Some ex_R1) None None) [Load] = Inl TypeError"
  by (simp add: lib_defs dm_defs ex_defs obs_defs)

text \<open>
  C10. In \<^verbatim>\<open>part_000\<close>, a render in which a role's coordinate is absent leaves that role's
  marker ref, its marker and the marker's position as they were, and the marker stays
  live; no event other than the unmount lowers the number of live markers of a role, and
  the unmount leaves none.
\<close>

theorem absent_coordinate_keeps_marker:
  assumes "p0_DeliveryMap p es = Inr s" and "mounted s"
  shows "(coordinate r p' = None \<longrightarrow>
            outcome (\<lambda>s'. (markerRef r s', markersOf r s', liveMarkers r s'))
              (p0_step s (Render p')) = Inr (markerRef r s, markersOf r s, liveMarkers r s))
         \<and> (e \<noteq> Unmount \<longrightarrow>
              outcome (\<lambda>s'. liveMarkers r s \<le> liveMarkers r s') (p0_step s e) = Inr True)
         \<and> outcome (liveMarkers r) (p0_step s Unmount) = Inr 0"
proof -
  from p0_DeliveryMap_inv[OF assms(1)] have inv: "p0_inv s" .
  have "e \<noteq> Unmount \<longrightarrow>
          outcome (\<lambda>s'. liveMarkers r s \<le> liveMarkers r s') (p0_step s e) = Inr True"
  proof
    assume e: "e \<noteq> Unmount"
    from p0_step_Inr obtain s' where s': "p0_step s e = Inr s'" by blast
    from p0_step_keeps_markers[OF inv assms(2) e s', of r] s'
    show "outcome (\<lambda>s'. liveMarkers r s \<le> liveMarkers r s') (p0_step s e) = Inr True"
      by (simp add: outcome_def)
  qed
  with p0_render_absent[OF inv assms(2), of r p'] p0_unmount_removes[OF inv assms(2), of r]
  show ?thesis by blast
qed

theorem absent_coordinate_keeps_marker_witness:
  "\<exists>s. p0_DeliveryMap (ex_props (Some ex_R1) (Some ex_D1) (Some ex_P1)) [Load] = Inr s
     \<and> mounted s
     \<and> coordinate Restaurant (ex_props None (Some ex_D2) (Some ex_P2)) = None
     \<and> markersOf Restaurant s = [\<lparr>role = Restaurant, lngLat = (77.59, 12.97), onMap = 0\<rparr>]
     \<and> outcome (\<lambda>s'. (markerRef Restaurant s', markersOf Restaurant s', liveMarkers Restaurant s'))
          (p0_step s (Render (ex_props None (Some ex_D2) (Some ex_P2))))
        = Inr (Some 0, [\<lparr>role = Restaurant, lngLat = (77.59, 12.97), onMap = 0\<rparr>], 1)
     \<and> outcome (\<lambda>s'. liveMarkers Restaurant s \<le> liveMarkers Restaurant s')
          (p0_step s (Gesture (77.6, 12.9) 17)) = Inr True
     \<and> outcome (liveMarkers Restaurant) (p0_step s Unmount) = Inr 0"
proof -
  let ?p = "ex_props (Some ex_R1) (Some ex_D1) (Some ex_P1)"
  let ?p' = "ex_props None (Some ex_D2) (Some ex_P2)"
  have v: "outcome (\<lambda>s. (mounted s, markerRef Restaurant s, markersOf Restaurant s,
              liveMarkers Restaurant s)) (p0_DeliveryMap ?p [Load])
           = Inr (True, Some 0, [\<lparr>role = Restaurant, lngLat = (77.59, 12.97), onMap = 0\<rparr>], 1)"
    by (simp add: lib_defs p0_defs ex_defs obs_defs)
  then obtain s where s: "p0_DeliveryMap ?p [Load] = Inr s" "mounted s"
    "markerRef Restaurant s = Some 0"
    "markersOf Restaurant s = [\<lparr>role = Restaurant, lngLat = (77.59, 12.97), onMap = 0\<rparr>]"
    "liveMarkers Restaurant s = 1"
    by (auto simp: outcome_def split: sum.splits)
  have c: "coordinate Restaurant ?p' = None" by (simp add: ex_props_def)
  from absent_coordinate_keeps_marker[OF s(1,2), of Restaurant ?p' "Gesture (77.6, 12.9) 17"] c s
  show ?thesis by auto
qed

text \<open>
  C3, as stated: every new partner coordinate after readiness eases the camera to it over
  a fixed duration of about a second with linear easing, the zoom unchanged. In
  \<^verbatim>\<open>delivery-map.tsx\<close> the camera call that follows the marker update is
  \<^verbatim>\<open>flyTo({ center, speed: 0.5 })\<close>, which has neither a duration nor an easing.
\<close>

theorem dm_partner_update_flies:
  "outcome (\<lambda>s. hd (calls s))
     (dm_DeliveryMap ex_fit (ex_props None None (Some ex_P1))
        [Load, Gesture (77.60, 12.90) 17, Render (ex_props None None (Some ex_P2))])
   = Inr (FlyTo 1 (77.61, 12.91) 0.5)"
  by (simp add: lib_defs dm_defs ex_defs obs_defs)

text \<open>
  C3, amended. In \<^verbatim>\<open>part_000\<close>, from every reachable state that is mounted and loaded, a
  render whose partner coordinate differs from the last one creates or repositions the
  partner marker and then calls \<^verbatim>\<open>easeTo\<close> on the live map with that coordinate as centre,
  duration 1000, the identity as easing and no zoom: the camera ends centred there at the
  zoom it had. In \<^verbatim>\<open>delivery-map.tsx\<close> the partner effect, on a loaded map, ends with
  \<^verbatim>\<open>flyTo\<close> to that coordinate at speed 0.5.
\<close>

theorem partner_update_moves_camera:
  assumes "p0_DeliveryMap p es = Inr s" and "mounted s" and "mapLoaded s"
    and "partnerLocation p' = Some l"
    and "map_option lngLatOf (partnerLocation (props s)) \<noteq> Some (lngLatOf l)"
  shows "outcome (\<lambda>s'. (hd (calls s'), center (maps s' ! 0), zoom (maps s' ! 0),
                        markersOf Partner s')) (p0_step s (Render p'))
         = Inr (EaseTo 0 \<lparr>e_center = (lng l, lat l), e_duration = 1000, e_easing = (\<lambda>t. t),
                          e_essential = True, e_zoom = None\<rparr>,
                (lng l, lat l), zoom (maps s ! 0),
                [case markersOf Partner s of
                   [] \<Rightarrow> \<lparr>role = Partner, lngLat = (lng l, lat l), onMap = 0\<rparr>
                 | m # ms \<Rightarrow> m\<lparr>lngLat := (lng l, lat l)\<rparr>])
         \<and> outcome mapRef (p0_step s (Render p')) = Inr (Some 0)
         \<and> (\<forall>t i. mapRef t = Some i \<and> mapLoaded t \<longrightarrow>
               hd (calls (dm_update_partner_marker p' t)) = FlyTo i (lng l, lat l) 0.5)"
proof -
  have n: "p0_runs Partner p' (mapLoaded s) s"
  proof -
    have "p0_partner_deps (mapLoaded s) p' \<noteq> p0_partner_deps (mapLoaded s) (props s)"
    proof
      assume "p0_partner_deps (mapLoaded s) p' = p0_partner_deps (mapLoaded s) (props s)"
      with assms(4) have "map_option lngLatOf (partnerLocation (props s)) = Some (lngLatOf l)"
        by (cases "partnerLocation (props s)")
           (simp_all add: p0_partner_deps_def optChain_def lngLatOf_def)
      with assms(5) show False by simp
    qed
    then show ?thesis by (simp add: p0_runs_def)
  qed
  from inv_mapRef[OF p0_DeliveryMap_inv[OF assms(1)]] assms(2)
  have "outcome mapRef (p0_step s (Render p')) = Inr (Some 0)"
    by (simp add: p0_render_step outcome_def)
  moreover from dm_partner_effect_flies[OF _ _ assms(4)]
  have "\<forall>t i. mapRef t = Some i \<and> mapLoaded t \<longrightarrow>
          hd (calls (dm_update_partner_marker p' t)) = FlyTo i (lng l, lat l) 0.5"
    by (simp add: lngLatOf_def)
  ultimately show ?thesis
    using p0_partner_update_camera[OF assms(1-4) n]
    unfolding p0_ease_options_def lngLatOf_def after_def by simp
qed

theorem partner_update_moves_camera_witness:
  "\<exists>s t. p0_DeliveryMap (ex_props None None (Some ex_P1)) [Load, Gesture (77.60, 12.90) 17] = Inr s
     \<and> mounted s \<and> mapLoaded s \<and> zoom (maps s ! 0) = 17
     \<and> map_option lngLatOf (partnerLocation (props s)) \<noteq> Some (lngLatOf ex_P2)
     \<and> outcome (\<lambda>s'. (hd (calls s'), center (maps s' ! 0), zoom (maps s' ! 0),
                      markersOf Partner s')) (p0_step s (Render (ex_props None None (Some ex_P2))))
        = Inr (EaseTo 0 \<lparr>e_center = (77.61, 12.91), e_duration = 1000, e_easing = (\<lambda>t. t),
                         e_essential = True, e_zoom = None\<rparr>,
               (77.61, 12.91), 17, [\<lparr>role = Partner, lngLat = (77.61, 12.91), onMap = 0\<rparr>])
     \<and> dm_DeliveryMap ex_fit (ex_props None None (Some ex_P1)) [Load] = Inr t
     \<and> mapRef t = Some 0 \<and> mapLoaded t
     \<and> hd (calls (dm_update_partner_marker (ex_props None None (Some ex_P2)) t))
        = FlyTo 0 (77.61, 12.91) 0.5"
proof -
  let ?p = "ex_props None None (Some ex_P1)"
  let ?p' = "ex_props None None (Some ex_P2)"
  have "outcome (\<lambda>s. (mounted s, mapLoaded s, zoom (maps s ! 0), partnerLocation (props s),
            markersOf Partner s)) (p0_DeliveryMap ?p [Load, Gesture (77.60, 12.90) 17])
        = Inr (True, True, 17, Some ex_P1, [\<lparr>role = Partner, lngLat = (77.60, 12.90), onMap = 0\<rparr>])"
    by (simp add: lib_defs p0_defs ex_defs obs_defs)
  then obtain s where s: "p0_DeliveryMap ?p [Load, Gesture (77.60, 12.90) 17] = Inr s"
    "mounted s" "mapLoaded s" "zoom (maps s ! 0) = 17" "partnerLocation (props s) = Some ex_P1"
    "markersOf Partner s = [\<lparr>role = Partner, lngLat = (77.60, 12.90), onMap = 0\<rparr>]"
    by (auto simp: outcome_def split: sum.splits)
  have "outcome (\<lambda>t. (mapRef t, mapLoaded t)) (dm_DeliveryMap ex_fit ?p [Load]) = Inr (Some 0, True)"
    by (simp add: lib_defs dm_defs ex_defs obs_defs)
  then obtain t where t: "dm_DeliveryMap ex_fit ?p [Load] = Inr t" "mapRef t = Some 0" "mapLoaded t"
    by (auto simp: outcome_def split: sum.splits)
  have l: "partnerLocation ?p' = Some ex_P2" by (simp add: ex_props_def)
  have d: "map_option lngLatOf (partnerLocation (props s)) \<noteq> Some (lngLatOf ex_P2)"
    using s(5) by (simp add: lngLatOf_def ex_P1_def ex_P2_def)
  from partner_update_moves_camera[OF s(1-3) l d] s t d
  show ?thesis
    by (auto simp: ex_P2_def)
qed

text \<open>
  C4, as stated: on first mount the map is centred at the partner coordinate when one is
  present. \<^verbatim>\<open>part_000\<close>, mounted with a restaurant and a partner coordinate, does not
  centre its map at the partner coordinate.
\<close>

theorem p0_mount_ignores_partner:
  "outcome (\<lambda>s. map center (maps s) = [lngLatOf ex_P1])
     (p0_DeliveryMap (ex_props (Some ex_R1) None (Some ex_P1)) []) = Inr False"
  by (simp add: lib_defs p0_defs ex_defs obs_defs)

text \<open>
  C4, amended. On first mount \<^verbatim>\<open>part_000\<close> creates its one map instance centred at the
  restaurant coordinate when there is one and at the default (12.9716, 77.5946)
  otherwise, whatever the partner coordinate; \<^verbatim>\<open>delivery-map.tsx\<close> creates it centred at
  the partner coordinate when there is one.
\<close>

theorem mount_center:
  "outcome (\<lambda>s. map center (maps s)) (p0_DeliveryMap p [])
     = Inr [case restaurantLocation p of
              Some l \<Rightarrow> (lng l, lat l) | None \<Rightarrow> (77.5946, 12.9716)]
   \<and> (partnerLocation p = Some l \<longrightarrow>
        outcome (\<lambda>s. map center (maps s)) (dm_DeliveryMap cfb p []) = Inr [(lng l, lat l)])"
  by (auto simp: lib_defs p0_defs dm_defs outcome_def split: option.splits)

theorem mount_center_witness:
  "partnerLocation (ex_props (Some ex_R1) None (Some ex_P1)) = Some ex_P1
   \<and> outcome (\<lambda>s. map center (maps s)) (p0_DeliveryMap (ex_props (Some ex_R1) None (Some ex_P1)) [])
     = Inr [(77.59, 12.97)]
   \<and> outcome (\<lambda>s. map center (maps s))
       (dm_DeliveryMap ex_fit (ex_props (Some ex_R1) None (Some ex_P1)) [])
     = Inr [(77.60, 12.90)]"
  using mount_center[of "ex_props (Some ex_R1) None (Some ex_P1)" ex_P1 ex_fit]
  by (simp add: ex_props_def ex_R1_def ex_P1_def)

end
